theory Spec2Isabelle
  imports Main "HOL-Library.Word"
begin

section \<open>sqltocsv: database rows to CSV\<close>

text \<open>
  A shallow embedding of \<^verbatim>\<open>sqltocsv.go\<close>. Go strings and byte slices are lists of
  \<^typ>\<open>char\<close> (an Isabelle character is one byte), fixed-width integers are words, every
  \<^verbatim>\<open>error\<close> result is a value of the datatype \<open>error\<close>, and the collaborators of the
  package (the \<^verbatim>\<open>database/sql\<close> cursor, the \<^verbatim>\<open>encoding/csv\<close> writer on top of
  its \<^verbatim>\<open>bufio.Writer\<close>, the destination \<^verbatim>\<open>io.Writer\<close> and the output file) are
  explicit states that the functions take and return.
\<close>

subsection \<open>Errors\<close>

datatype error =
    ErrDriver string              \<comment> \<open>an error reported by the cursor (Columns, Scan, Err)\<close>
  | ErrScanArity nat nat          \<comment> \<open>sql: expected n destination arguments in Scan, not m\<close>
  | ErrInvalidDelim               \<comment> \<open>csv: invalid field or comment delimiter\<close>
  | ErrShortWrite                 \<comment> \<open>io.ErrShortWrite\<close>
  | ErrIO string                  \<comment> \<open>an error of the destination writer or of the file system\<close>
  | ErrClosed                     \<comment> \<open>os.ErrClosed\<close>
  | ErrMarshal string             \<comment> \<open>an error of MarshalJSON or json.Marshal\<close>
  | ErrWrap string error          \<comment> \<open>fmt.Errorf(prefix + "%w", err)\<close>
  | CorruptInputError             \<comment> \<open>base64.CorruptInputError\<close>
  | ErrLength                     \<comment> \<open>hex.ErrLength\<close>
  | InvalidByteError char         \<comment> \<open>hex.InvalidByteError\<close>

subsection \<open>Scanned values\<close>

text \<open>
  The dynamic type of a scanned \<^verbatim>\<open>any\<close> value decides the branch of the type switch in
  \<^verbatim>\<open>toString\<close>. A value of any other dynamic type is described by what the four later
  steps of \<^verbatim>\<open>toString\<close> observe of it: the result of its \<^verbatim>\<open>MarshalJSON\<close> method (if
  the type has one), the result of its \<^verbatim>\<open>String\<close> method (if the type has one), the
  result of \<^verbatim>\<open>json.Marshal\<close> and the text of \<^verbatim>\<open>fmt.Sprintf("%v", v)\<close>. The methods
  are taken to return: a method that panics is outside the model. \<^verbatim>\<open>int\<close> and \<^verbatim>\<open>uint\<close>
  are 64 bits wide.
\<close>

record other =
  MarshalJSON :: "(error + string) option"
  Stringer :: "string option"
  json_Marshal :: "error + string"
  Sprintf_v :: string

record gotime =
  unix_sec :: int
  nsec :: nat
  zone :: string
  zone_offset :: int

datatype val =
    GoNil
  | GoString string
  | GoBytes string
  | GoBool bool
  | GoInt "64 word"
  | GoInt8 "8 word"
  | GoInt16 "16 word"
  | GoInt32 "32 word"
  | GoInt64 "64 word"
  | GoUint "64 word"
  | GoUint8 "8 word"
  | GoUint16 "16 word"
  | GoUint32 "32 word"
  | GoUint64 "64 word"
  | GoTime gotime
  | GoFloat32 "32 word"
  | GoFloat64 "64 word"
  | GoOther other

text \<open>
  Floating-point numbers are carried as their IEEE 754 bit patterns and never interpreted
  here. The library functions that render floats and times are parameters of the model.
\<close>

record stdlib =
  strconv_FormatFloat32 :: "32 word \<Rightarrow> string"
    \<comment> \<open>\<^verbatim>\<open>strconv.FormatFloat(float64(val), 'f', -1, 32)\<close>\<close>
  strconv_FormatFloat64 :: "64 word \<Rightarrow> string"
    \<comment> \<open>\<^verbatim>\<open>strconv.FormatFloat(val, 'f', -1, 64)\<close>\<close>
  fmt_Sprintf_float32 :: "string \<Rightarrow> 32 word \<Rightarrow> string"
  fmt_Sprintf_float64 :: "string \<Rightarrow> 64 word \<Rightarrow> string"
  time_Format :: "gotime \<Rightarrow> string \<Rightarrow> string"
  time_String :: "gotime \<Rightarrow> string"

subsection \<open>Library functions used by the formatter\<close>

definition dquote :: char where
  "dquote = CHR 0x22"

fun digits :: "nat \<Rightarrow> string" where
  "digits n =
     (if n < 10 then [char_of (48 + n)]
      else digits (n div 10) @ [char_of (48 + n mod 10)])"

declare digits.simps [simp del]

definition strconv_FormatUint :: "nat \<Rightarrow> string" where
  "strconv_FormatUint n = digits n"

definition strconv_FormatInt :: "int \<Rightarrow> string" where
  "strconv_FormatInt i = (if i < 0 then CHR ''-'' # digits (nat (- i)) else digits (nat i))"

definition strconv_FormatBool :: "bool \<Rightarrow> string" where
  "strconv_FormatBool b = (if b then ''true'' else ''false'')"

text \<open>
  \<^verbatim>\<open>strings.Trim(s, cutset)\<close> with a cutset of one ASCII byte, the only way the package
  calls it: \<^verbatim>\<open>trimLeftByte(trimRightByte(s, c), c)\<close>, each a loop that drops the byte
  while it is at that end.
\<close>

fun trimLeftByte :: "string \<Rightarrow> char \<Rightarrow> string" where
  "trimLeftByte [] c = []"
| "trimLeftByte (x # xs) c = (if x = c then trimLeftByte xs c else x # xs)"

function trimRightByte :: "string \<Rightarrow> char \<Rightarrow> string" where
  "trimRightByte s c = (if s \<noteq> [] \<and> last s = c then trimRightByte (butlast s) c else s)"
  by pat_completeness auto
termination
  by (relation "measure (\<lambda>(s, c). length s)") auto

declare trimRightByte.simps [simp del]

definition strings_Trim :: "string \<Rightarrow> char \<Rightarrow> string" where
  "strings_Trim s c = (if s = [] then s else trimLeftByte (trimRightByte s c) c)"


subsection \<open>Byte-slice encodings\<close>

text \<open>
  \<^verbatim>\<open>encoding/base64\<close>: an encoding is its 64-character alphabet and its padding
  character (\<open>None\<close> is \<^verbatim>\<open>NoPadding\<close>). \<^verbatim>\<open>EncodeToString\<close> turns each group of three
  source bytes into the 24-bit value \<^verbatim>\<open>src[0]<<16 | src[1]<<8 | src[2]\<close> and emits the
  alphabet characters of its four 6-bit digits (\<^verbatim>\<open>val>>18&0x3F\<close> and so on); the last one
  or two bytes give two or three characters, followed by padding when the encoding has it.
\<close>

record Encoding =
  encode :: string
  padChar :: "char option"

definition encodeStd :: string where
  "encodeStd = ''ABCDEFGHIJKLMNOPQRSTUVWXYZabcdefghijklmnopqrstuvwxyz0123456789+/''"

definition encodeURL :: string where
  "encodeURL = ''ABCDEFGHIJKLMNOPQRSTUVWXYZabcdefghijklmnopqrstuvwxyz0123456789-_''"

definition StdEncoding :: Encoding where
  "StdEncoding = \<lparr>encode = encodeStd, padChar = Some (CHR ''='')\<rparr>"

definition URLEncoding :: Encoding where
  "URLEncoding = \<lparr>encode = encodeURL, padChar = Some (CHR ''='')\<rparr>"

definition RawStdEncoding :: Encoding where
  "RawStdEncoding = \<lparr>encode = encodeStd, padChar = None\<rparr>"

definition RawURLEncoding :: Encoding where
  "RawURLEncoding = \<lparr>encode = encodeURL, padChar = None\<rparr>"

definition padding :: "Encoding \<Rightarrow> nat \<Rightarrow> string" where
  "padding enc n = (case padChar enc of None \<Rightarrow> [] | Some p \<Rightarrow> replicate n p)"

fun base64_EncodeToString :: "Encoding \<Rightarrow> string \<Rightarrow> string" where
  "base64_EncodeToString enc [] = []"
| "base64_EncodeToString enc [a] =
     (let v = (of_char a :: nat) * 65536 in
        [encode enc ! (v div 262144 mod 64), encode enc ! (v div 4096 mod 64)] @ padding enc 2)"
| "base64_EncodeToString enc [a, b] =
     (let v = (of_char a :: nat) * 65536 + of_char b * 256 in
        [encode enc ! (v div 262144 mod 64), encode enc ! (v div 4096 mod 64),
         encode enc ! (v div 64 mod 64)] @ padding enc 1)"
| "base64_EncodeToString enc (a # b # c # src) =
     (let v = (of_char a :: nat) * 65536 + of_char b * 256 + of_char c in
        [encode enc ! (v div 262144 mod 64), encode enc ! (v div 4096 mod 64),
         encode enc ! (v div 64 mod 64), encode enc ! (v mod 64)]
        @ base64_EncodeToString enc src)"

text \<open>
  \<^verbatim>\<open>encoding/hex\<close>: \<^verbatim>\<open>hextable[v>>4]\<close> and \<^verbatim>\<open>hextable[v&0x0f]\<close> for every byte.
\<close>

definition hextable :: string where
  "hextable = ''0123456789abcdef''"

fun hex_EncodeToString :: "string \<Rightarrow> string" where
  "hex_EncodeToString [] = []"
| "hex_EncodeToString (v # src) =
     hextable ! ((of_char v :: nat) div 16) # hextable ! ((of_char v :: nat) mod 16)
       # hex_EncodeToString src"

text \<open>
  The decoders that match the encoders, as \<^verbatim>\<open>DecodeString\<close> of the two packages reads
  its input. Base64: carriage returns and line feeds are skipped; every other character
  must be of the alphabet, but for the padding that ends the input; a last group of one
  character, or a short last group without its padding when the encoding pads, is
  corrupt. Hex: pairs of hexadecimal digits of either case.
\<close>

fun index_of :: "'a list \<Rightarrow> 'a \<Rightarrow> nat option" where
  "index_of [] c = None"
| "index_of (x # xs) c = (if x = c then Some 0 else map_option Suc (index_of xs c))"

definition byte3 :: "nat \<Rightarrow> string" where
  "byte3 v = [char_of (v div 65536), char_of (v div 256), char_of v]"

fun decodeQuanta :: "Encoding \<Rightarrow> string \<Rightarrow> error + string" where
  "decodeQuanta enc [] = Inr []"
| "decodeQuanta enc [c0] = Inl CorruptInputError"
| "decodeQuanta enc (c0 # c1 # src) =
     (case (index_of (encode enc) c0, index_of (encode enc) c1) of
        (Some d0, Some d1) \<Rightarrow>
          (case src of
             [] \<Rightarrow>
               (if padChar enc \<noteq> None then Inl CorruptInputError
                else Inr (take 1 (byte3 (d0 * 262144 + d1 * 4096))))
           | c2 # src2 \<Rightarrow>
               (case index_of (encode enc) c2 of
                  Some d2 \<Rightarrow>
                    (case src2 of
                       [] \<Rightarrow>
                         (if padChar enc \<noteq> None then Inl CorruptInputError
                          else Inr (take 2 (byte3 (d0 * 262144 + d1 * 4096 + d2 * 64))))
                     | c3 # src3 \<Rightarrow>
                         (case index_of (encode enc) c3 of
                            Some d3 \<Rightarrow>
                              (case decodeQuanta enc src3 of
                                 Inl e \<Rightarrow> Inl e
                               | Inr out \<Rightarrow>
                                   Inr (byte3 (d0 * 262144 + d1 * 4096 + d2 * 64 + d3) @ out))
                          | None \<Rightarrow>
                              (if Some c3 = padChar enc \<and> src3 = []
                               then Inr (take 2 (byte3 (d0 * 262144 + d1 * 4096 + d2 * 64)))
                               else Inl CorruptInputError)))
                | None \<Rightarrow>
                    (if Some c2 = padChar enc \<and> src2 = [c2]
                     then Inr (take 1 (byte3 (d0 * 262144 + d1 * 4096)))
                     else Inl CorruptInputError)))
      | _ \<Rightarrow> Inl CorruptInputError)"

definition base64_DecodeString :: "Encoding \<Rightarrow> string \<Rightarrow> error + string" where
  "base64_DecodeString enc s =
     decodeQuanta enc (filter (\<lambda>c. c \<noteq> CHR 0x0D \<and> c \<noteq> CHR 0x0A) s)"

definition fromHexChar :: "char \<Rightarrow> nat option" where
  "fromHexChar c =
     (let n = (of_char c :: nat) in
        if 48 \<le> n \<and> n \<le> 57 then Some (n - 48)
        else if 97 \<le> n \<and> n \<le> 102 then Some (n - 97 + 10)
        else if 65 \<le> n \<and> n \<le> 70 then Some (n - 65 + 10)
        else None)"

fun hex_DecodeString :: "string \<Rightarrow> error + string" where
  "hex_DecodeString [] = Inr []"
| "hex_DecodeString [p] =
     (case fromHexChar p of None \<Rightarrow> Inl (InvalidByteError p) | Some a \<Rightarrow> Inl ErrLength)"
| "hex_DecodeString (p # q # src) =
     (case fromHexChar p of
        None \<Rightarrow> Inl (InvalidByteError p)
      | Some a \<Rightarrow>
          (case fromHexChar q of
             None \<Rightarrow> Inl (InvalidByteError q)
           | Some b \<Rightarrow>
               (case hex_DecodeString src of
                  Inl e \<Rightarrow> Inl e
                | Inr out \<Rightarrow> Inr (char_of (a * 16 + b) # out))))"


text \<open>
  What the round trip needs of an encoding: an alphabet of 64 different characters, none
  of them a carriage return, a line feed or the padding character.
\<close>

definition goodEncoding :: "Encoding \<Rightarrow> bool" where
  "goodEncoding enc =
     (length (encode enc) = 64 \<and> distinct (encode enc)
      \<and> CHR 0x0D \<notin> set (encode enc) \<and> CHR 0x0A \<notin> set (encode enc)
      \<and> (case padChar enc of
            None \<Rightarrow> True
          | Some p \<Rightarrow> p \<notin> set (encode enc) \<and> p \<noteq> CHR 0x0D \<and> p \<noteq> CHR 0x0A))"

subsection \<open>The cursor\<close>

text \<open>
  A \<^verbatim>\<open>*sql.Rows\<close>, as \<^verbatim>\<open>Write\<close> uses it: the result of \<^verbatim>\<open>Columns()\<close>, the rows that
  \<^verbatim>\<open>Next()\<close> will step to, each with what \<^verbatim>\<open>Scan\<close> finds there (the decoded values or
  an error), and the result of \<^verbatim>\<open>Err()\<close> once \<^verbatim>\<open>Next()\<close> has returned false.
  \<^verbatim>\<open>Scan\<close> fails when it is given a number of destinations other than the number of
  values of the row.
\<close>

record Rows =
  Columns :: "error + string list"
  pending :: "(error + val list) list"
  Err :: "error option"

definition Rows_Scan :: "nat \<Rightarrow> error + val list \<Rightarrow> error + val list" where
  "Rows_Scan count r =
     (case r of
        Inl err \<Rightarrow> Inl err
      | Inr vals \<Rightarrow> if length vals \<noteq> count then Inl (ErrScanArity (length vals) count) else Inr vals)"

subsection \<open>The converter and its formatter\<close>

type_synonym rune = "32 word"

type_synonym CsvPreProcessorFunc = "string list \<Rightarrow> string list \<Rightarrow> bool \<times> string list"

type_synonym ByteArrayConverter = int

definition String :: ByteArrayConverter where "String = 0"
definition StdBase64 :: ByteArrayConverter where "StdBase64 = 1"
definition URLBase64 :: ByteArrayConverter where "URLBase64 = 2"
definition RawStdBase64 :: ByteArrayConverter where "RawStdBase64 = 3"
definition RawURLBase64 :: ByteArrayConverter where "RawURLBase64 = 4"
definition Hex :: ByteArrayConverter where "Hex = 5"

record Converter =
  Headers :: "string list"
  WriteHeaders :: bool
  TimeFormat :: string
  FloatFormat :: string
  Delimiter :: rune
  ByteArrayConverter :: ByteArrayConverter
  rows :: Rows
  rowPreProcessor :: "CsvPreProcessorFunc option"

definition SetRowPreProcessor :: "Converter \<Rightarrow> CsvPreProcessorFunc \<Rightarrow> Converter" where
  "SetRowPreProcessor c processor = c\<lparr>rowPreProcessor := Some processor\<rparr>"

definition New :: "Rows \<Rightarrow> Converter" where
  "New rs =
     \<lparr>Headers = [], WriteHeaders = True, TimeFormat = [], FloatFormat = [], Delimiter = 44,
      ByteArrayConverter = 0, rows = rs, rowPreProcessor = None\<rparr>"

definition bytesToString :: "Converter \<Rightarrow> string \<Rightarrow> string" where
  "bytesToString c val =
     (if ByteArrayConverter c = String then val
      else if ByteArrayConverter c = StdBase64 then base64_EncodeToString StdEncoding val
      else if ByteArrayConverter c = URLBase64 then base64_EncodeToString URLEncoding val
      else if ByteArrayConverter c = RawStdBase64 then base64_EncodeToString RawStdEncoding val
      else if ByteArrayConverter c = RawURLBase64 then base64_EncodeToString RawURLEncoding val
      else if ByteArrayConverter c = Hex then hex_EncodeToString val
      else val)"

definition otherToString :: "other \<Rightarrow> string" where
  "otherToString v =
     (case MarshalJSON v of
        Some (Inr jsonData) \<Rightarrow> strings_Trim jsonData dquote
      | _ \<Rightarrow>
          (case Stringer v of
             Some s \<Rightarrow> s
           | None \<Rightarrow>
               (case json_Marshal v of
                  Inr jsonData \<Rightarrow> strings_Trim jsonData dquote
                | Inl err \<Rightarrow> Sprintf_v v)))"

fun Converter_toString :: "stdlib \<Rightarrow> Converter \<Rightarrow> val \<Rightarrow> string" where
  "Converter_toString L c GoNil = []"
| "Converter_toString L c (GoString val) = val"
| "Converter_toString L c (GoBytes val) = bytesToString c val"
| "Converter_toString L c (GoBool val) = strconv_FormatBool val"
| "Converter_toString L c (GoInt val) = strconv_FormatInt (sint val)"
| "Converter_toString L c (GoInt8 val) = strconv_FormatInt (sint val)"
| "Converter_toString L c (GoInt16 val) = strconv_FormatInt (sint val)"
| "Converter_toString L c (GoInt32 val) = strconv_FormatInt (sint val)"
| "Converter_toString L c (GoInt64 val) = strconv_FormatInt (sint val)"
| "Converter_toString L c (GoUint val) = strconv_FormatUint (unat val)"
| "Converter_toString L c (GoUint8 val) = strconv_FormatUint (unat val)"
| "Converter_toString L c (GoUint16 val) = strconv_FormatUint (unat val)"
| "Converter_toString L c (GoUint32 val) = strconv_FormatUint (unat val)"
| "Converter_toString L c (GoUint64 val) = strconv_FormatUint (unat val)"
| "Converter_toString L c (GoTime val) =
     (if TimeFormat c \<noteq> [] then time_Format L val (TimeFormat c) else time_String L val)"
| "Converter_toString L c (GoFloat32 val) =
     (if FloatFormat c \<noteq> [] then fmt_Sprintf_float32 L (FloatFormat c) val
      else strconv_FormatFloat32 L val)"
| "Converter_toString L c (GoFloat64 val) =
     (if FloatFormat c \<noteq> [] then fmt_Sprintf_float64 L (FloatFormat c) val
      else strconv_FormatFloat64 L val)"
| "Converter_toString L c (GoOther v) = otherToString v"

subsection \<open>The destination writer and the buffered writer\<close>

text \<open>
  An \<^verbatim>\<open>io.Writer\<close>: the bytes it has accepted, and how many more it accepts before it
  fails (\<open>None\<close>: it never fails, as a \<^verbatim>\<open>bytes.Buffer\<close>). A write that does not fit
  accepts what fits and returns the writer's error. \<open>stringWriter\<close> says that the writer
  also has a \<^verbatim>\<open>WriteString\<close> method, which \<^verbatim>\<open>bufio.Writer\<close> calls for a large write on an
  empty buffer.
\<close>

record ioWriter =
  accepted :: string
  room :: "nat option"
  failure :: error
  stringWriter :: bool

definition io_Write :: "ioWriter \<Rightarrow> string \<Rightarrow> nat \<times> error option \<times> ioWriter" where
  "io_Write dst p =
     (case room dst of
        None \<Rightarrow> (length p, None, dst\<lparr>accepted := accepted dst @ p\<rparr>)
      | Some k \<Rightarrow>
          if length p \<le> k
          then (length p, None, dst\<lparr>accepted := accepted dst @ p, room := Some (k - length p)\<rparr>)
          else (k, Some (failure dst), dst\<lparr>accepted := accepted dst @ take k p, room := Some 0\<rparr>))"

definition bytes_Buffer :: ioWriter where
  "bytes_Buffer = \<lparr>accepted = [], room = None, failure = ErrIO [], stringWriter = True\<rparr>"

text \<open>
  \<^verbatim>\<open>bufio.Writer\<close> with the default size of 4096 bytes: the bytes not yet handed to the
  destination, the sticky error, and the destination.
\<close>

record bufioWriter =
  buf :: string
  berr :: "error option"
  wr :: ioWriter

definition defaultBufSize :: nat where
  "defaultBufSize = 4096"

definition bufio_NewWriter :: "ioWriter \<Rightarrow> bufioWriter" where
  "bufio_NewWriter dst = \<lparr>buf = [], berr = None, wr = dst\<rparr>"

definition Available :: "bufioWriter \<Rightarrow> nat" where
  "Available b = defaultBufSize - length (buf b)"

definition bufio_Flush :: "bufioWriter \<Rightarrow> error option \<times> bufioWriter" where
  "bufio_Flush b =
     (if berr b \<noteq> None then (berr b, b)
      else if buf b = [] then (None, b)
      else
        (case io_Write (wr b) (buf b) of
           (n, e, dst) \<Rightarrow>
             (case (if n < length (buf b) \<and> e = None then Some ErrShortWrite else e) of
                Some err \<Rightarrow> (Some err, b\<lparr>buf := drop n (buf b), berr := Some err, wr := dst\<rparr>)
              | None \<Rightarrow> (None, b\<lparr>buf := [], wr := dst\<rparr>))))"

definition bufio_WriteByte :: "bufioWriter \<Rightarrow> char \<Rightarrow> error option \<times> bufioWriter" where
  "bufio_WriteByte b c =
     (if berr b \<noteq> None then (berr b, b)
      else if Available b \<le> 0 then
        (case bufio_Flush b of
           (Some err, b') \<Rightarrow> (Some err, b')
         | (None, b') \<Rightarrow> (None, b'\<lparr>buf := buf b' @ [c]\<rparr>))
      else (None, b\<lparr>buf := buf b @ [c]\<rparr>))"

function bufio_WriteString :: "bufioWriter \<Rightarrow> string \<Rightarrow> error option \<times> bufioWriter" where
  "bufio_WriteString b s =
     (if length s > Available b \<and> berr b = None then
        (if buf b = [] \<and> stringWriter (wr b) then
           (case io_Write (wr b) s of
              (n, e, dst) \<Rightarrow> bufio_WriteString (b\<lparr>berr := e, wr := dst\<rparr>) (drop n s))
         else
           bufio_WriteString
             (snd (bufio_Flush (b\<lparr>buf := buf b @ take (Available b) s\<rparr>)))
             (drop (Available b) s))
      else if berr b \<noteq> None then (berr b, b)
      else (None, b\<lparr>buf := buf b @ s\<rparr>))"
  by pat_completeness auto
termination
  apply (relation "measure (\<lambda>(b, s).
      if berr b = None then 2 * length s + (if buf b = [] then 0 else 1) + 1 else 0)")
    apply simp
  subgoal
    by (auto simp: io_Write_def Available_def defaultBufSize_def split: option.splits if_splits)
  subgoal for b s
    by (cases "buf b = []")
      (auto simp: bufio_Flush_def io_Write_def Available_def defaultBufSize_def
        split: option.splits if_splits prod.splits)
  done

declare bufio_WriteString.simps [simp del]


text \<open>
  \<^verbatim>\<open>utf8.EncodeRune\<close> on \<^verbatim>\<open>uint32(r)\<close>; a surrogate or a value past U+10FFFF is
  encoded as U+FFFD.
\<close>

definition utf8_EncodeRune :: "rune \<Rightarrow> string" where
  "utf8_EncodeRune r =
     (let i = unat r in
        if i \<le> 0x7F then [char_of i]
        else if i \<le> 0x7FF then [char_of (0xC0 + i div 64), char_of (0x80 + i mod 64)]
        else if i > 0x10FFFF \<or> (0xD800 \<le> i \<and> i \<le> 0xDFFF) then [CHR 0xEF, CHR 0xBF, CHR 0xBD]
        else if i \<le> 0xFFFF then
          [char_of (0xE0 + i div 4096), char_of (0x80 + i div 64 mod 64), char_of (0x80 + i mod 64)]
        else
          [char_of (0xF0 + i div 262144), char_of (0x80 + i div 4096 mod 64),
           char_of (0x80 + i div 64 mod 64), char_of (0x80 + i mod 64)])"

definition bufio_WriteRune :: "bufioWriter \<Rightarrow> rune \<Rightarrow> error option \<times> bufioWriter" where
  "bufio_WriteRune b r =
     (if unat r < 0x80 then bufio_WriteByte b (char_of (unat r))
      else if berr b \<noteq> None then (berr b, b)
      else if Available b < 4 then
        (case bufio_Flush b of
           (Some err, b') \<Rightarrow> (Some err, b')
         | (None, b') \<Rightarrow> (None, b'\<lparr>buf := buf b' @ utf8_EncodeRune r\<rparr>))
      else (None, b\<lparr>buf := buf b @ utf8_EncodeRune r\<rparr>))"

subsection \<open>The CSV writer\<close>

text \<open>
  \<^verbatim>\<open>csv.Writer\<close>: its field delimiter, its line ending and its \<^verbatim>\<open>bufio.Writer\<close>.
  \<^verbatim>\<open>Write\<close> refuses an invalid delimiter; otherwise it makes, in order, the writes
  listed by \<open>recordWrites\<close> and returns the error of the first one that fails. A field is
  quoted when it is \<^verbatim>\<open>\.\<close>, holds the delimiter, a quote, a carriage return or a line
  feed, or starts with a space character, and a quote in a quoted field is doubled.
\<close>

record csvWriter =
  Comma :: rune
  UseCRLF :: bool
  csv_w :: bufioWriter

definition csv_NewWriter :: "ioWriter \<Rightarrow> csvWriter" where
  "csv_NewWriter dst = \<lparr>Comma = 44, UseCRLF = False, csv_w = bufio_NewWriter dst\<rparr>"

definition validDelim :: "rune \<Rightarrow> bool" where
  "validDelim r =
     (r \<noteq> 0 \<and> r \<noteq> 0x22 \<and> r \<noteq> 0x0D \<and> r \<noteq> 0x0A
      \<and> ((0 \<le> sint r \<and> sint r < 0xD800) \<or> (0xDFFF < sint r \<and> sint r \<le> 0x10FFFF))
      \<and> r \<noteq> 0xFFFD)"

fun contains :: "string \<Rightarrow> string \<Rightarrow> bool" where
  "contains [] sub = (sub = [])"
| "contains (x # xs) sub = (take (length sub) (x # xs) = sub \<or> contains xs sub)"

definition spaceRunes :: "rune list" where
  "spaceRunes =
     [0x09, 0x0A, 0x0B, 0x0C, 0x0D, 0x20, 0x85, 0xA0, 0x1680,
      0x2000, 0x2001, 0x2002, 0x2003, 0x2004, 0x2005, 0x2006, 0x2007, 0x2008, 0x2009, 0x200A,
      0x2028, 0x2029, 0x202F, 0x205F, 0x3000]"

definition startsWithSpace :: "string \<Rightarrow> bool" where
  "startsWithSpace field =
     list_ex (\<lambda>r. take (length (utf8_EncodeRune r)) field = utf8_EncodeRune r) spaceRunes"

definition fieldNeedsQuotes :: "csvWriter \<Rightarrow> string \<Rightarrow> bool" where
  "fieldNeedsQuotes cw field =
     (if field = [] then False
      else if field = [CHR 0x5C, CHR ''.''] then True
      else if (if sint (Comma cw) < 0x80
               then list_ex (\<lambda>c. c = CHR 0x0A \<or> c = CHR 0x0D \<or> c = dquote
                                   \<or> c = char_of (unat (Comma cw))) field
               else contains field (utf8_EncodeRune (Comma cw))
                    \<or> list_ex (\<lambda>c. c = dquote \<or> c = CHR 0x0D \<or> c = CHR 0x0A) field)
      then True
      else startsWithSpace field)"

datatype bufioCall = CallWriteByte char | CallWriteString string | CallWriteRune rune

definition special :: "char \<Rightarrow> bool" where
  "special c = (c = dquote \<or> c = CHR 0x0D \<or> c = CHR 0x0A)"

function quotedWrites :: "bool \<Rightarrow> string \<Rightarrow> bufioCall list" where
  "quotedWrites crlf field =
     (if field = [] then []
      else
        CallWriteString (takeWhile (\<lambda>c. \<not> special c) field)
        # (case dropWhile (\<lambda>c. \<not> special c) field of
             [] \<Rightarrow> []
           | c # rest \<Rightarrow>
               (if c = dquote then [CallWriteString [dquote, dquote]]
                else if c = CHR 0x0D then (if \<not> crlf then [CallWriteByte (CHR 0x0D)] else [])
                else (if crlf then [CallWriteString [CHR 0x0D, CHR 0x0A]] else [CallWriteByte (CHR 0x0A)]))
               @ quotedWrites crlf rest))"
  by pat_completeness auto
termination
  apply (relation "measure (\<lambda>(crlf, field). length field)")
   apply simp
  subgoal for crlf field c rest
    using length_dropWhile_le [of "\<lambda>c. \<not> special c" field] by simp
  done

declare quotedWrites.simps [simp del]

definition fieldWrites :: "csvWriter \<Rightarrow> nat \<Rightarrow> string \<Rightarrow> bufioCall list" where
  "fieldWrites cw n field =
     (if n > 0 then [CallWriteRune (Comma cw)] else [])
     @ (if \<not> fieldNeedsQuotes cw field then [CallWriteString field]
        else CallWriteByte dquote # quotedWrites (UseCRLF cw) field @ [CallWriteByte dquote])"

definition recordWrites :: "csvWriter \<Rightarrow> string list \<Rightarrow> bufioCall list" where
  "recordWrites cw recd =
     concat (map (\<lambda>(n, field). fieldWrites cw n field) (enumerate 0 recd))
     @ [if UseCRLF cw then CallWriteString [CHR 0x0D, CHR 0x0A] else CallWriteByte (CHR 0x0A)]"

fun bufioDo :: "bufioWriter \<Rightarrow> bufioCall \<Rightarrow> error option \<times> bufioWriter" where
  "bufioDo b (CallWriteByte c) = bufio_WriteByte b c"
| "bufioDo b (CallWriteString s) = bufio_WriteString b s"
| "bufioDo b (CallWriteRune r) = bufio_WriteRune b r"

fun bufioDoAll :: "bufioWriter \<Rightarrow> bufioCall list \<Rightarrow> error option \<times> bufioWriter" where
  "bufioDoAll b [] = (None, b)"
| "bufioDoAll b (x # xs) =
     (case bufioDo b x of
        (Some err, b') \<Rightarrow> (Some err, b')
      | (None, b') \<Rightarrow> bufioDoAll b' xs)"

definition csv_Write :: "csvWriter \<Rightarrow> string list \<Rightarrow> error option \<times> csvWriter" where
  "csv_Write cw recd =
     (if \<not> validDelim (Comma cw) then (Some ErrInvalidDelim, cw)
      else
        (case bufioDoAll (csv_w cw) (recordWrites cw recd) of
           (err, b) \<Rightarrow> (err, cw\<lparr>csv_w := b\<rparr>)))"

definition csv_Flush :: "csvWriter \<Rightarrow> csvWriter" where
  "csv_Flush cw = cw\<lparr>csv_w := snd (bufio_Flush (csv_w cw))\<rparr>"

subsection \<open>Converter.Write\<close>

text \<open>
  The row loop of \<^verbatim>\<open>Write\<close>, over the rows the cursor still has. \<open>Some err\<close> is a
  \<^verbatim>\<open>return err\<close> from inside the loop; \<open>None\<close> is the loop running to its end.
\<close>

fun writeRows ::
  "stdlib \<Rightarrow> Converter \<Rightarrow> string list \<Rightarrow> csvWriter \<Rightarrow> (error + val list) list
     \<Rightarrow> error option \<times> csvWriter" where
  "writeRows L c columnNames csvWriter [] = (None, csvWriter)"
| "writeRows L c columnNames csvWriter (r # rs) =
     (case Rows_Scan (length columnNames) r of
        Inl err \<Rightarrow> (Some err, csvWriter)
      | Inr values \<Rightarrow>
          (case (case rowPreProcessor c of
                   None \<Rightarrow> (True, map (Converter_toString L c) values)
                 | Some processor \<Rightarrow> processor (map (Converter_toString L c) values) columnNames) of
             (writeRow, row) \<Rightarrow>
               if writeRow then
                 (case csv_Write csvWriter row of
                    (Some err, csvWriter') \<Rightarrow>
                      (Some (ErrWrap ''failed to write data row to csv '' err), csvWriter')
                  | (None, csvWriter') \<Rightarrow> writeRows L c columnNames csvWriter' rs)
               else writeRows L c columnNames csvWriter rs))"

text \<open>
  \<^verbatim>\<open>Write\<close>, returning its error and its local \<^verbatim>\<open>csvWriter\<close> as it is when the function
  returns. The destination writer of that \<^verbatim>\<open>csvWriter\<close> is what the caller's writer has
  received; what is still in its buffer is lost with it.
\<close>

definition configuredWriter :: "Converter \<Rightarrow> ioWriter \<Rightarrow> csvWriter" where
  "configuredWriter c writer =
     (if Delimiter c \<noteq> 0 then (csv_NewWriter writer)\<lparr>Comma := Delimiter c\<rparr>
      else csv_NewWriter writer)"

definition Write_csvWriter :: "stdlib \<Rightarrow> Converter \<Rightarrow> ioWriter \<Rightarrow> error option \<times> csvWriter" where
  "Write_csvWriter L c writer =
     (let csvWriter = configuredWriter c writer in
      case Columns (rows c) of
        Inl err \<Rightarrow> (Some err, csvWriter)
      | Inr columnNames \<Rightarrow>
          (case (if WriteHeaders c
                 then (case csv_Write csvWriter
                              (if length (Headers c) > 0 then Headers c else columnNames) of
                         (Some err, csvWriter') \<Rightarrow>
                           (Some (ErrWrap ''failed to write headers: '' err), csvWriter')
                       | (None, csvWriter') \<Rightarrow> (None, csvWriter'))
                 else (None, csvWriter)) of
             (Some err, csvWriter') \<Rightarrow> (Some err, csvWriter')
           | (None, csvWriter') \<Rightarrow>
               (case writeRows L c columnNames csvWriter' (pending (rows c)) of
                  (Some err, csvWriter'') \<Rightarrow> (Some err, csvWriter'')
                | (None, csvWriter'') \<Rightarrow> (Err (rows c), csv_Flush csvWriter''))))"

definition Converter_Write :: "stdlib \<Rightarrow> Converter \<Rightarrow> ioWriter \<Rightarrow> error option \<times> ioWriter" where
  "Converter_Write L c writer =
     (case Write_csvWriter L c writer of (err, csvWriter) \<Rightarrow> (err, wr (csv_w csvWriter)))"

subsection \<open>The other entry points\<close>

definition Converter_WriteString :: "stdlib \<Rightarrow> Converter \<Rightarrow> string \<times> error option" where
  "Converter_WriteString L c =
     (case Converter_Write L c bytes_Buffer of (err, buffer) \<Rightarrow> (accepted buffer, err))"

definition Converter_String :: "stdlib \<Rightarrow> Converter \<Rightarrow> string" where
  "Converter_String L c =
     (case Converter_WriteString L c of
        (csv, Some err) \<Rightarrow> []
      | (csv, None) \<Rightarrow> csv)"

text \<open>
  The file system, as \<^verbatim>\<open>WriteFile\<close> meets it: whether \<^verbatim>\<open>os.Create\<close> of a name fails,
  how many bytes a new file takes before its writes fail, and what \<^verbatim>\<open>Close\<close> of a file
  returns. An \<^verbatim>\<open>*os.File\<close> is its writer and whether it has been closed; closing it
  again returns \<^verbatim>\<open>os.ErrClosed\<close>.
\<close>

record fileSystem =
  createError :: "string \<Rightarrow> error option"
  capacity :: "nat option"
  closeError :: "error option"

record osFile =
  fname :: string
  fileWriter :: ioWriter
  closed :: bool
  onClose :: "error option"

definition os_Create :: "fileSystem \<Rightarrow> string \<Rightarrow> error + osFile" where
  "os_Create fs csvFileName =
     (case createError fs csvFileName of
        Some err \<Rightarrow> Inl err
      | None \<Rightarrow>
          Inr \<lparr>fname = csvFileName,
               fileWriter = \<lparr>accepted = [], room = capacity fs,
                             failure = ErrIO ''write failed'', stringWriter = True\<rparr>,
               closed = False, onClose = closeError fs\<rparr>)"

definition File_Close :: "osFile \<Rightarrow> error option \<times> osFile" where
  "File_Close f = (if closed f then (Some ErrClosed, f) else (onClose f, f\<lparr>closed := True\<rparr>))"

text \<open>
  \<^verbatim>\<open>WriteFile\<close> returns its error and, when the file was created, the file as the
  function leaves it.
\<close>

definition Converter_WriteFile ::
  "stdlib \<Rightarrow> Converter \<Rightarrow> fileSystem \<Rightarrow> string \<Rightarrow> error option \<times> osFile option" where
  "Converter_WriteFile L c fs csvFileName =
     (case os_Create fs csvFileName of
        Inl err \<Rightarrow> (Some err, None)
      | Inr f \<Rightarrow>
          (case Converter_Write L c (fileWriter f) of
             (Some err, dst) \<Rightarrow> (Some err, Some (snd (File_Close (f\<lparr>fileWriter := dst\<rparr>))))
           | (None, dst) \<Rightarrow>
               (case File_Close (f\<lparr>fileWriter := dst\<rparr>) of (err, f') \<Rightarrow> (err, Some f'))))"

definition WriteFile :: "stdlib \<Rightarrow> fileSystem \<Rightarrow> string \<Rightarrow> Rows \<Rightarrow> error option \<times> osFile option" where
  "WriteFile L fs csvFileName rs = Converter_WriteFile L (New rs) fs csvFileName"

definition WriteString :: "stdlib \<Rightarrow> Rows \<Rightarrow> string \<times> error option" where
  "WriteString L rs = Converter_WriteString L (New rs)"

definition Write :: "stdlib \<Rightarrow> ioWriter \<Rightarrow> Rows \<Rightarrow> error option \<times> ioWriter" where
  "Write L writer rs = Converter_Write L (New rs) writer"

subsection \<open>What a run writes\<close>

text \<open>
  The bytes a \<^verbatim>\<open>bufio.Writer\<close> has been given and has not lost are those its
  destination has accepted followed by those still in its buffer. A writer is reliable
  when it has no error and its destination never fails. \<open>recordBytes\<close> is the text of
  one record: the bytes of the writes that \<^verbatim>\<open>csv.Writer.Write\<close> makes for it.
\<close>

definition streamOf :: "bufioWriter \<Rightarrow> string" where
  "streamOf b = accepted (wr b) @ buf b"

definition reliable :: "bufioWriter \<Rightarrow> bool" where
  "reliable b = (berr b = None \<and> room (wr b) = None)"

fun callBytes :: "bufioCall \<Rightarrow> string" where
  "callBytes (CallWriteByte c) = [c]"
| "callBytes (CallWriteString s) = s"
| "callBytes (CallWriteRune r) = (if unat r < 0x80 then [char_of (unat r)] else utf8_EncodeRune r)"

definition recordBytes :: "csvWriter \<Rightarrow> string list \<Rightarrow> string" where
  "recordBytes cw recd = concat (map callBytes (recordWrites cw recd))"

text \<open>
  The rows that the loop of \<^verbatim>\<open>Write\<close> hands to the CSV writer, up to the first row
  that \<^verbatim>\<open>Scan\<close> fails on, and the error of that \<^verbatim>\<open>Scan\<close>.
\<close>

fun rowsWritten :: "stdlib \<Rightarrow> Converter \<Rightarrow> string list \<Rightarrow> (error + val list) list \<Rightarrow> string list list" where
  "rowsWritten L c columnNames [] = []"
| "rowsWritten L c columnNames (r # rs) =
     (case Rows_Scan (length columnNames) r of
        Inl err \<Rightarrow> []
      | Inr values \<Rightarrow>
          (case (case rowPreProcessor c of
                   None \<Rightarrow> (True, map (Converter_toString L c) values)
                 | Some processor \<Rightarrow> processor (map (Converter_toString L c) values) columnNames) of
             (writeRow, row) \<Rightarrow>
               if writeRow then row # rowsWritten L c columnNames rs
               else rowsWritten L c columnNames rs))"

fun scanFailure :: "nat \<Rightarrow> (error + val list) list \<Rightarrow> error option" where
  "scanFailure count [] = None"
| "scanFailure count (r # rs) =
     (case Rows_Scan count r of Inl err \<Rightarrow> Some err | Inr values \<Rightarrow> scanFailure count rs)"

text \<open>
  The text of the header record that a run of \<^verbatim>\<open>Write\<close> starts with, and the text of
  the data rows it hands to the CSV writer.
\<close>

definition headerBytes :: "Converter \<Rightarrow> ioWriter \<Rightarrow> string list \<Rightarrow> string" where
  "headerBytes c writer columnNames =
     (if WriteHeaders c
      then recordBytes (configuredWriter c writer)
             (if length (Headers c) > 0 then Headers c else columnNames)
      else [])"

definition dataBytes :: "stdlib \<Rightarrow> Converter \<Rightarrow> ioWriter \<Rightarrow> string list \<Rightarrow> string" where
  "dataBytes L c writer columnNames =
     concat (map (recordBytes (configuredWriter c writer))
                 (rowsWritten L c columnNames (pending (rows c))))"

text \<open>
  The examples below hold no float and no time; they take the library functions for those
  from \<open>exampleLib\<close>.
\<close>

definition exampleLib :: stdlib where
  "exampleLib =
     \<lparr>strconv_FormatFloat32 = (\<lambda>v. []), strconv_FormatFloat64 = (\<lambda>v. []),
      fmt_Sprintf_float32 = (\<lambda>format v. []), fmt_Sprintf_float64 = (\<lambda>format v. []),
      time_Format = (\<lambda>t layout. []), time_String = (\<lambda>t. [])\<rparr>"

section \<open>Properties\<close>

subsection \<open>Trimming\<close>

lemma trimLeftByte_dropWhile: "trimLeftByte s c = dropWhile (\<lambda>x. x = c) s"
  by (induction s) auto

lemma trimRightByte_dropWhile: "trimRightByte s c = rev (dropWhile (\<lambda>x. x = c) (rev s))"
proof (induction s c rule: trimRightByte.induct)
  case (1 s c)
  show ?case
  proof (cases "s \<noteq> [] \<and> last s = c")
    case True
    then obtain ys where s: "s = ys @ [c]"
      by (metis append_butlast_last_id)
    with 1 True show ?thesis
      by (subst trimRightByte.simps) simp
  next
    case False
    then show ?thesis
      by (subst trimRightByte.simps) (cases s rule: rev_cases; auto)
  qed
qed

lemma strings_Trim_dropWhile:
  "strings_Trim s c = dropWhile (\<lambda>x. x = c) (rev (dropWhile (\<lambda>x. x = c) (rev s)))"
  by (simp add: strings_Trim_def trimLeftByte_dropWhile trimRightByte_dropWhile)

lemma dropWhile_eq_replicate: "\<exists>k. s = replicate k c @ dropWhile (\<lambda>x. x = c) s"
proof (induction s)
  case Nil
  then show ?case by simp
next
  case (Cons a s)
  then obtain k where k: "s = replicate k c @ dropWhile (\<lambda>x. x = c) s" by (elim exE)
  show ?case
  proof (cases "a = c")
    case True
    have "a # s = replicate (Suc k) c @ dropWhile (\<lambda>x. x = c) (a # s)"
      using True k by simp
    then show ?thesis by blast
  next
    case False
    have "a # s = replicate 0 c @ dropWhile (\<lambda>x. x = c) (a # s)"
      using False by simp
    then show ?thesis by blast
  qed
qed

lemma strings_Trim_shape:
  "\<exists>k m. s = replicate k c @ strings_Trim s c @ replicate m c"
proof -
  define t where "t = rev (dropWhile (\<lambda>x. x = c) (rev s))"
  obtain m where "rev s = replicate m c @ dropWhile (\<lambda>x. x = c) (rev s)"
    using dropWhile_eq_replicate [of "rev s" c] by (elim exE)
  then have "rev (rev s) = rev (replicate m c @ dropWhile (\<lambda>x. x = c) (rev s))"
    by simp
  then have s: "s = t @ replicate m c"
    by (simp add: t_def)
  obtain k where t: "t = replicate k c @ dropWhile (\<lambda>x. x = c) t"
    using dropWhile_eq_replicate [of t c] by (elim exE)
  have "strings_Trim s c = dropWhile (\<lambda>x. x = c) t"
    by (simp add: strings_Trim_dropWhile t_def)
  with s t have "s = replicate k c @ strings_Trim s c @ replicate m c"
    by simp
  then show ?thesis by blast
qed

lemma strings_Trim_ends:
  assumes "strings_Trim s c \<noteq> []"
  shows "hd (strings_Trim s c) \<noteq> c \<and> last (strings_Trim s c) \<noteq> c"
proof -
  define t where "t = rev (dropWhile (\<lambda>x. x = c) (rev s))"
  have tr: "strings_Trim s c = dropWhile (\<lambda>x. x = c) t"
    by (simp add: strings_Trim_dropWhile t_def)
  have h: "hd (dropWhile (\<lambda>x. x = c) t) \<noteq> c"
    using assms tr hd_dropWhile [of "\<lambda>x. x = c" t] by auto
  have tl: "t \<noteq> [] \<Longrightarrow> last t \<noteq> c"
    using hd_dropWhile [of "\<lambda>x. x = c" "rev s"] by (simp add: t_def last_rev)
  have ne: "dropWhile (\<lambda>x. x = c) t \<noteq> []" using assms tr by simp
  then have "t \<noteq> []" by auto
  moreover have "last (dropWhile (\<lambda>x. x = c) t) = last t"
    using ne by (metis last_appendR takeWhile_dropWhile_id)
  ultimately show ?thesis using h tl tr by simp
qed

subsection \<open>A reliable buffered writer\<close>

lemma io_Write_reliable:
  "room dst = None \<Longrightarrow> io_Write dst p = (length p, None, dst\<lparr>accepted := accepted dst @ p\<rparr>)"
  by (simp add: io_Write_def)

lemma bufio_Flush_reliable:
  assumes "reliable b"
  shows "fst (bufio_Flush b) = None \<and> reliable (snd (bufio_Flush b))
     \<and> streamOf (snd (bufio_Flush b)) = streamOf b \<and> buf (snd (bufio_Flush b)) = []"
  using assms
  by (simp add: bufio_Flush_def reliable_def streamOf_def io_Write_reliable)

lemma bufio_WriteByte_reliable:
  assumes "reliable b"
  shows "fst (bufio_WriteByte b c) = None \<and> reliable (snd (bufio_WriteByte b c))
     \<and> streamOf (snd (bufio_WriteByte b c)) = streamOf b @ [c]"
proof (cases "Available b \<le> 0")
  case True
  obtain e b' where f: "bufio_Flush b = (e, b')" by (cases "bufio_Flush b")
  with bufio_Flush_reliable [OF assms] have "e = None" "reliable b'" "streamOf b' = streamOf b"
    by simp_all
  with True f assms show ?thesis
    by (simp add: bufio_WriteByte_def reliable_def streamOf_def)
next
  case False
  with assms show ?thesis
    by (simp add: bufio_WriteByte_def reliable_def streamOf_def)
qed

lemma bufio_WriteRune_reliable:
  assumes "reliable b"
  shows "fst (bufio_WriteRune b r) = None \<and> reliable (snd (bufio_WriteRune b r))
     \<and> streamOf (snd (bufio_WriteRune b r)) = streamOf b @ callBytes (CallWriteRune r)"
proof (cases "unat r < 0x80")
  case True
  with bufio_WriteByte_reliable [OF assms, of "char_of (unat r)"] show ?thesis
    by (simp add: bufio_WriteRune_def)
next
  case False
  obtain e b' where f: "bufio_Flush b = (e, b')" by (cases "bufio_Flush b")
  with bufio_Flush_reliable [OF assms] have "e = None" "reliable b'" "streamOf b' = streamOf b"
    by simp_all
  with False f assms show ?thesis
    by (simp add: bufio_WriteRune_def reliable_def streamOf_def)
qed

lemma bufio_WriteString_reliable:
  "reliable b \<Longrightarrow>
     fst (bufio_WriteString b s) = None \<and> reliable (snd (bufio_WriteString b s))
     \<and> streamOf (snd (bufio_WriteString b s)) = streamOf b @ s"
proof (induction b s rule: bufio_WriteString.induct)
  case (1 b s)
  note rel = \<open>reliable b\<close>
  show ?case
  proof (cases "length s > Available b \<and> berr b = None")
    case False
    with rel show ?thesis
      by (subst (1 2 3) bufio_WriteString.simps) (simp add: reliable_def streamOf_def)
  next
    case big: True
    show ?thesis
    proof (cases "buf b = [] \<and> stringWriter (wr b)")
      case True
      let ?b = "b\<lparr>berr := None, wr := (wr b)\<lparr>accepted := accepted (wr b) @ s\<rparr>\<rparr>"
      have w: "io_Write (wr b) s = (length s, None, (wr b)\<lparr>accepted := accepted (wr b) @ s\<rparr>)"
        using rel by (simp add: io_Write_reliable reliable_def)
      have r: "reliable ?b" using rel by (simp add: reliable_def)
      have ih: "fst (bufio_WriteString ?b (drop (length s) s)) = None
        \<and> reliable (snd (bufio_WriteString ?b (drop (length s) s)))
        \<and> streamOf (snd (bufio_WriteString ?b (drop (length s) s)))
             = streamOf ?b @ drop (length s) s"
        using "1.IH"(1) [OF big True w [symmetric] refl r] .
      have unf: "bufio_WriteString b s = bufio_WriteString ?b (drop (length s) s)"
        by (subst bufio_WriteString.simps) (simp only: if_P [OF big] if_P [OF True] w prod.case)
      show ?thesis
        unfolding unf using ih True by (simp add: streamOf_def)
    next
      case False
      let ?b = "snd (bufio_Flush (b\<lparr>buf := buf b @ take (Available b) s\<rparr>))"
      have r0: "reliable (b\<lparr>buf := buf b @ take (Available b) s\<rparr>)"
        using rel by (simp add: reliable_def)
      have s0: "streamOf (b\<lparr>buf := buf b @ take (Available b) s\<rparr>)
          = streamOf b @ take (Available b) s"
        by (simp add: streamOf_def)
      have r: "reliable ?b" and st: "streamOf ?b = streamOf b @ take (Available b) s"
        using bufio_Flush_reliable [OF r0] s0 by simp_all
      have ih: "fst (bufio_WriteString ?b (drop (Available b) s)) = None
        \<and> reliable (snd (bufio_WriteString ?b (drop (Available b) s)))
        \<and> streamOf (snd (bufio_WriteString ?b (drop (Available b) s)))
             = streamOf ?b @ drop (Available b) s"
        using "1.IH"(2) [OF big False r] .
      have unf: "bufio_WriteString b s = bufio_WriteString ?b (drop (Available b) s)"
        by (subst bufio_WriteString.simps) (simp only: if_P [OF big] if_not_P [OF False])
      show ?thesis
        unfolding unf using ih st by simp
    qed
  qed
qed

lemma bufioDo_reliable:
  "reliable b \<Longrightarrow>
     fst (bufioDo b x) = None \<and> reliable (snd (bufioDo b x))
     \<and> streamOf (snd (bufioDo b x)) = streamOf b @ callBytes x"
  using bufio_WriteByte_reliable bufio_WriteString_reliable bufio_WriteRune_reliable
  by (cases x) simp_all

lemma bufioDoAll_reliable:
  "reliable b \<Longrightarrow>
     fst (bufioDoAll b xs) = None \<and> reliable (snd (bufioDoAll b xs))
     \<and> streamOf (snd (bufioDoAll b xs)) = streamOf b @ concat (map callBytes xs)"
proof (induction xs arbitrary: b)
  case Nil
  then show ?case by simp
next
  case (Cons x xs)
  obtain e b' where d: "bufioDo b x = (e, b')" by (cases "bufioDo b x")
  with bufioDo_reliable [OF Cons.prems, of x]
  have e: "e = None" and r: "reliable b'" and s: "streamOf b' = streamOf b @ callBytes x"
    by simp_all
  from Cons.IH [OF r] d e s show ?case by simp
qed

subsection \<open>Writes that fit the buffer\<close>

text \<open>
  While what is written fits the buffer (with room for one more rune), the buffered
  writer only appends to its buffer: its destination receives nothing.
\<close>

lemma bufio_WriteByte_fits:
  "berr b = None \<Longrightarrow> length (buf b) < defaultBufSize \<Longrightarrow>
     bufio_WriteByte b c = (None, b\<lparr>buf := buf b @ [c]\<rparr>)"
  by (simp add: bufio_WriteByte_def Available_def)

lemma bufio_WriteString_fits:
  "berr b = None \<Longrightarrow> length (buf b) + length s \<le> defaultBufSize \<Longrightarrow>
     bufio_WriteString b s = (None, b\<lparr>buf := buf b @ s\<rparr>)"
proof -
  assume e: "berr b = None" and l: "length (buf b) + length s \<le> defaultBufSize"
  from l have n: "\<not> Available b < length s"
    unfolding Available_def by arith
  show ?thesis
    by (subst bufio_WriteString.simps) (simp add: n e)
qed

lemma bufio_WriteRune_fits:
  "berr b = None \<Longrightarrow> length (buf b) + 4 \<le> defaultBufSize \<Longrightarrow>
     bufio_WriteRune b r = (None, b\<lparr>buf := buf b @ callBytes (CallWriteRune r)\<rparr>)"
proof -
  assume e: "berr b = None" and l: "length (buf b) + 4 \<le> defaultBufSize"
  from l have n: "\<not> Available b < 4" "length (buf b) < defaultBufSize"
    unfolding Available_def by arith+
  show ?thesis
    by (simp add: bufio_WriteRune_def bufio_WriteByte_fits n e)
qed

lemma bufioDo_fits:
  "berr b = None \<Longrightarrow> length (buf b) + length (callBytes x) + 4 \<le> defaultBufSize \<Longrightarrow>
     bufioDo b x = (None, b\<lparr>buf := buf b @ callBytes x\<rparr>)"
  by (cases x) (simp_all add: bufio_WriteByte_fits bufio_WriteString_fits bufio_WriteRune_fits)

lemma bufioDoAll_fits:
  "berr b = None \<Longrightarrow>
   length (buf b) + length (concat (map callBytes xs)) + 4 \<le> defaultBufSize \<Longrightarrow>
     bufioDoAll b xs = (None, b\<lparr>buf := buf b @ concat (map callBytes xs)\<rparr>)"
proof (induction xs arbitrary: b)
  case Nil
  then show ?case by simp
next
  case (Cons x xs)
  have d: "bufioDo b x = (None, b\<lparr>buf := buf b @ callBytes x\<rparr>)"
    using Cons.prems by (intro bufioDo_fits) simp_all
  have "bufioDoAll (b\<lparr>buf := buf b @ callBytes x\<rparr>) xs
      = (None, b\<lparr>buf := buf b @ callBytes x\<rparr>
                 \<lparr>buf := buf (b\<lparr>buf := buf b @ callBytes x\<rparr>) @ concat (map callBytes xs)\<rparr>)"
    using Cons.prems by (intro Cons.IH) simp_all
  with d show ?case by simp
qed

lemma recordWrites_csv_w_update [simp]:
  "recordWrites (cw\<lparr>csv_w := b\<rparr>) = recordWrites cw"
  by (rule ext) (simp add: recordWrites_def fieldWrites_def fieldNeedsQuotes_def cong: if_cong)

lemma recordBytes_csv_w_update [simp]:
  "recordBytes (cw\<lparr>csv_w := b\<rparr>) = recordBytes cw"
  by (rule ext) (simp add: recordBytes_def)

lemma csv_Write_fits:
  "validDelim (Comma cw) \<Longrightarrow> berr (csv_w cw) = None \<Longrightarrow>
   length (buf (csv_w cw)) + length (recordBytes cw recd) + 4 \<le> defaultBufSize \<Longrightarrow>
     csv_Write cw recd
       = (None, cw\<lparr>csv_w := (csv_w cw)\<lparr>buf := buf (csv_w cw) @ recordBytes cw recd\<rparr>\<rparr>)"
  by (simp add: csv_Write_def recordBytes_def bufioDoAll_fits)

lemma csv_Write_reliable:
  assumes "validDelim (Comma cw)" "reliable (csv_w cw)"
  shows "\<exists>b. csv_Write cw recd = (None, cw\<lparr>csv_w := b\<rparr>) \<and> reliable b
     \<and> streamOf b = streamOf (csv_w cw) @ recordBytes cw recd"
proof -
  obtain e b where d: "bufioDoAll (csv_w cw) (recordWrites cw recd) = (e, b)"
    by (cases "bufioDoAll (csv_w cw) (recordWrites cw recd)")
  with bufioDoAll_reliable [OF assms(2), of "recordWrites cw recd"]
  have "e = None" "reliable b" "streamOf b = streamOf (csv_w cw) @ recordBytes cw recd"
    by (simp_all add: recordBytes_def)
  with d assms(1) show ?thesis
    by (intro exI [of _ b]) (simp add: csv_Write_def)
qed

lemma writeRows_fits:
  "validDelim (Comma cw) \<Longrightarrow> berr (csv_w cw) = None \<Longrightarrow>
   length (buf (csv_w cw))
     + length (concat (map (recordBytes cw) (rowsWritten L c columnNames rs))) + 4
     \<le> defaultBufSize \<Longrightarrow>
     writeRows L c columnNames cw rs
       = (scanFailure (length columnNames) rs,
          cw\<lparr>csv_w := (csv_w cw)\<lparr>buf := buf (csv_w cw)
              @ concat (map (recordBytes cw) (rowsWritten L c columnNames rs))\<rparr>\<rparr>)"
proof (induction rs arbitrary: cw)
  case Nil
  then show ?case by simp
next
  case (Cons r rs)
  show ?case
  proof (cases "Rows_Scan (length columnNames) r")
    case (Inl err)
    then show ?thesis by simp
  next
    case (Inr vals)
    obtain writeRow row where p:
      "(case rowPreProcessor c of
          None \<Rightarrow> (True, map (Converter_toString L c) vals)
        | Some processor \<Rightarrow> processor (map (Converter_toString L c) vals) columnNames)
       = (writeRow, row)"
      by (cases "case rowPreProcessor c of
          None \<Rightarrow> (True, map (Converter_toString L c) vals)
        | Some processor \<Rightarrow> processor (map (Converter_toString L c) vals) columnNames")
    show ?thesis
    proof (cases writeRow)
      case False
      with Inr p Cons.prems Cons.IH [of cw] show ?thesis by simp
    next
      case True
      let ?cw = "cw\<lparr>csv_w := (csv_w cw)\<lparr>buf := buf (csv_w cw) @ recordBytes cw row\<rparr>\<rparr>"
      have rw: "rowsWritten L c columnNames (r # rs) = row # rowsWritten L c columnNames rs"
        using Inr p True by simp
      have w: "csv_Write cw row = (None, ?cw)"
        using Cons.prems rw by (intro csv_Write_fits) simp_all
      have "writeRows L c columnNames ?cw rs
          = (scanFailure (length columnNames) rs,
             ?cw\<lparr>csv_w := (csv_w ?cw)\<lparr>buf := buf (csv_w ?cw)
                 @ concat (map (recordBytes ?cw) (rowsWritten L c columnNames rs))\<rparr>\<rparr>)"
        using Cons.prems rw by (intro Cons.IH) simp_all
      with Inr p True w rw show ?thesis by simp
    qed
  qed
qed

lemma writeRows_reliable:
  "validDelim (Comma cw) \<Longrightarrow> reliable (csv_w cw) \<Longrightarrow>
     \<exists>b. writeRows L c columnNames cw rs = (scanFailure (length columnNames) rs, cw\<lparr>csv_w := b\<rparr>)
       \<and> reliable b
       \<and> streamOf b = streamOf (csv_w cw)
            @ concat (map (recordBytes cw) (rowsWritten L c columnNames rs))"
proof (induction rs arbitrary: cw)
  case Nil
  have "cw = cw\<lparr>csv_w := csv_w cw\<rparr>" by simp
  with Nil show ?case
    by (intro exI [of _ "csv_w cw"]) simp
next
  case (Cons r rs)
  show ?case
  proof (cases "Rows_Scan (length columnNames) r")
    case (Inl err)
    have "cw = cw\<lparr>csv_w := csv_w cw\<rparr>" by simp
    with Inl Cons.prems show ?thesis
      by (intro exI [of _ "csv_w cw"]) simp
  next
    case (Inr vals)
    obtain writeRow row where p:
      "(case rowPreProcessor c of
          None \<Rightarrow> (True, map (Converter_toString L c) vals)
        | Some processor \<Rightarrow> processor (map (Converter_toString L c) vals) columnNames)
       = (writeRow, row)"
      by (cases "case rowPreProcessor c of
          None \<Rightarrow> (True, map (Converter_toString L c) vals)
        | Some processor \<Rightarrow> processor (map (Converter_toString L c) vals) columnNames")
    show ?thesis
    proof (cases writeRow)
      case False
      with Inr p Cons.prems Cons.IH [of cw] show ?thesis by simp
    next
      case True
      obtain b where w: "csv_Write cw row = (None, cw\<lparr>csv_w := b\<rparr>)" and rb: "reliable b"
        and sb: "streamOf b = streamOf (csv_w cw) @ recordBytes cw row"
        using csv_Write_reliable [OF Cons.prems, of row] by (elim exE conjE)
      have "\<exists>b'. writeRows L c columnNames (cw\<lparr>csv_w := b\<rparr>) rs
            = (scanFailure (length columnNames) rs, cw\<lparr>csv_w := b\<rparr>\<lparr>csv_w := b'\<rparr>)
          \<and> reliable b'
          \<and> streamOf b' = streamOf (csv_w (cw\<lparr>csv_w := b\<rparr>))
               @ concat (map (recordBytes (cw\<lparr>csv_w := b\<rparr>)) (rowsWritten L c columnNames rs))"
        using Cons.prems rb by (intro Cons.IH) simp_all
      then obtain b' where
        "writeRows L c columnNames (cw\<lparr>csv_w := b\<rparr>) rs
            = (scanFailure (length columnNames) rs, cw\<lparr>csv_w := b'\<rparr>)"
        "reliable b'"
        "streamOf b' = streamOf b @ concat (map (recordBytes cw) (rowsWritten L c columnNames rs))"
        by (elim exE conjE) simp
      with Inr p True w sb show ?thesis
        by (intro exI [of _ b']) simp
    qed
  qed
qed

subsection \<open>Runs of Write\<close>

lemma configuredWriter_csv_w [simp]: "csv_w (configuredWriter c writer) = bufio_NewWriter writer"
  by (simp add: configuredWriter_def csv_NewWriter_def)

lemma bufio_NewWriter_simps [simp]:
  "buf (bufio_NewWriter writer) = []" "berr (bufio_NewWriter writer) = None"
  "wr (bufio_NewWriter writer) = writer"
  by (simp_all add: bufio_NewWriter_def)

lemma Write_csvWriter_reliable:
  assumes cols: "Columns (rows c) = Inr columnNames"
    and delim: "validDelim (Comma (configuredWriter c writer))"
    and room: "room writer = None"
  shows "\<exists>b. Write_csvWriter L c writer
        = (case scanFailure (length columnNames) (pending (rows c)) of
             Some err \<Rightarrow> Some err | None \<Rightarrow> Err (rows c),
           (configuredWriter c writer)\<lparr>csv_w := b\<rparr>)
     \<and> reliable b
     \<and> streamOf b = accepted writer @ headerBytes c writer columnNames
                       @ dataBytes L c writer columnNames
     \<and> (scanFailure (length columnNames) (pending (rows c)) = None \<longrightarrow> buf b = [])"
proof -
  let ?cw = "configuredWriter c writer"
  let ?hdr = "if length (Headers c) > 0 then Headers c else columnNames"
  have r0: "reliable (csv_w ?cw)" and s0: "streamOf (csv_w ?cw) = accepted writer"
    using room by (simp_all add: reliable_def streamOf_def)
  have "\<exists>b1. (if WriteHeaders c
              then (case csv_Write ?cw ?hdr of
                      (Some err, cw') \<Rightarrow> (Some (ErrWrap ''failed to write headers: '' err), cw')
                    | (None, cw') \<Rightarrow> (None, cw'))
              else (None, ?cw)) = (None, ?cw\<lparr>csv_w := b1\<rparr>)
          \<and> reliable b1 \<and> streamOf b1 = accepted writer @ headerBytes c writer columnNames"
  proof (cases "WriteHeaders c")
    case True
    obtain b where "csv_Write ?cw ?hdr = (None, ?cw\<lparr>csv_w := b\<rparr>)" "reliable b"
      "streamOf b = streamOf (csv_w ?cw) @ recordBytes ?cw ?hdr"
      using csv_Write_reliable [OF delim r0, of ?hdr] by (elim exE conjE)
    with True s0 show ?thesis
      by (intro exI [of _ b]) (simp add: headerBytes_def)
  next
    case False
    have "?cw = ?cw\<lparr>csv_w := csv_w ?cw\<rparr>" by simp
    with False r0 s0 show ?thesis
      by (intro exI [of _ "csv_w ?cw"]) (simp add: headerBytes_def)
  qed
  then obtain b1 where h: "(if WriteHeaders c
              then (case csv_Write ?cw ?hdr of
                      (Some err, cw') \<Rightarrow> (Some (ErrWrap ''failed to write headers: '' err), cw')
                    | (None, cw') \<Rightarrow> (None, cw'))
              else (None, ?cw)) = (None, ?cw\<lparr>csv_w := b1\<rparr>)"
    and r1: "reliable b1"
    and s1: "streamOf b1 = accepted writer @ headerBytes c writer columnNames"
    by (elim exE conjE)
  have "\<exists>b2. writeRows L c columnNames (?cw\<lparr>csv_w := b1\<rparr>) (pending (rows c))
          = (scanFailure (length columnNames) (pending (rows c)), ?cw\<lparr>csv_w := b1\<rparr>\<lparr>csv_w := b2\<rparr>)
       \<and> reliable b2
       \<and> streamOf b2 = streamOf (csv_w (?cw\<lparr>csv_w := b1\<rparr>))
            @ concat (map (recordBytes (?cw\<lparr>csv_w := b1\<rparr>))
                          (rowsWritten L c columnNames (pending (rows c))))"
    using delim r1 by (intro writeRows_reliable) simp_all
  then obtain b2 where
    w: "writeRows L c columnNames (?cw\<lparr>csv_w := b1\<rparr>) (pending (rows c))
          = (scanFailure (length columnNames) (pending (rows c)), ?cw\<lparr>csv_w := b2\<rparr>)"
    and r2: "reliable b2"
    and s2: "streamOf b2 = accepted writer @ headerBytes c writer columnNames
                @ dataBytes L c writer columnNames"
    using s1 by (elim exE conjE) (simp add: dataBytes_def)
  show ?thesis
  proof (cases "scanFailure (length columnNames) (pending (rows c))")
    case (Some err)
    with cols h w r2 s2 show ?thesis
      by (intro exI [of _ b2]) (simp add: Write_csvWriter_def)
  next
    case None
    with cols h w r2 s2 bufio_Flush_reliable [OF r2] show ?thesis
      by (intro exI [of _ "snd (bufio_Flush b2)"]) (simp add: Write_csvWriter_def csv_Flush_def)
  qed
qed

lemma Converter_Write_reliable:
  assumes "Columns (rows c) = Inr columnNames"
    and "validDelim (Comma (configuredWriter c writer))"
    and "room writer = None"
    and "scanFailure (length columnNames) (pending (rows c)) = None"
  shows "fst (Converter_Write L c writer) = Err (rows c)"
    and "accepted (snd (Converter_Write L c writer))
       = accepted writer @ headerBytes c writer columnNames @ dataBytes L c writer columnNames"
proof -
  obtain b where "Write_csvWriter L c writer = (Err (rows c), (configuredWriter c writer)\<lparr>csv_w := b\<rparr>)"
    "streamOf b = accepted writer @ headerBytes c writer columnNames
                       @ dataBytes L c writer columnNames" "buf b = []"
    using Write_csvWriter_reliable [OF assms(1-3), of L] assms(4) by (elim exE conjE) simp
  then show "fst (Converter_Write L c writer) = Err (rows c)"
    and "accepted (snd (Converter_Write L c writer))
       = accepted writer @ headerBytes c writer columnNames @ dataBytes L c writer columnNames"
    by (simp_all add: Converter_Write_def streamOf_def)
qed

lemma Write_csvWriter_fits:
  assumes cols: "Columns (rows c) = Inr columnNames"
    and delim: "validDelim (Comma (configuredWriter c writer))"
    and fits: "length (headerBytes c writer columnNames)
                 + length (dataBytes L c writer columnNames) + 4 \<le> defaultBufSize"
    and fail: "scanFailure (length columnNames) (pending (rows c)) = Some err"
  shows "Write_csvWriter L c writer
      = (Some err,
         (configuredWriter c writer)
           \<lparr>csv_w := (bufio_NewWriter writer)
              \<lparr>buf := headerBytes c writer columnNames @ dataBytes L c writer columnNames\<rparr>\<rparr>)"
proof -
  let ?cw = "configuredWriter c writer"
  let ?hdr = "if length (Headers c) > 0 then Headers c else columnNames"
  let ?cw1 = "?cw\<lparr>csv_w := (bufio_NewWriter writer)\<lparr>buf := headerBytes c writer columnNames\<rparr>\<rparr>"
  have h: "(if WriteHeaders c
              then (case csv_Write ?cw ?hdr of
                      (Some err, cw') \<Rightarrow> (Some (ErrWrap ''failed to write headers: '' err), cw')
                    | (None, cw') \<Rightarrow> (None, cw'))
              else (None, ?cw)) = (None, ?cw1)"
  proof (cases "WriteHeaders c")
    case True
    have "csv_Write ?cw ?hdr
        = (None, ?cw\<lparr>csv_w := (csv_w ?cw)\<lparr>buf := buf (csv_w ?cw) @ recordBytes ?cw ?hdr\<rparr>\<rparr>)"
      using delim fits True by (intro csv_Write_fits) (simp_all add: headerBytes_def)
    with True show ?thesis by (simp add: headerBytes_def)
  next
    case False
    have "bufio_NewWriter writer = (bufio_NewWriter writer)\<lparr>buf := []\<rparr>"
      by (simp add: bufio_NewWriter_def)
    then have "?cw = ?cw\<lparr>csv_w := (bufio_NewWriter writer)\<lparr>buf := []\<rparr>\<rparr>"
      by (simp add: configuredWriter_def csv_NewWriter_def)
    with False show ?thesis by (simp add: headerBytes_def)
  qed
  have "writeRows L c columnNames ?cw1 (pending (rows c))
      = (scanFailure (length columnNames) (pending (rows c)),
         ?cw1\<lparr>csv_w := (csv_w ?cw1)\<lparr>buf := buf (csv_w ?cw1)
              @ concat (map (recordBytes ?cw1) (rowsWritten L c columnNames (pending (rows c))))\<rparr>\<rparr>)"
    using delim fits by (intro writeRows_fits) (simp_all add: dataBytes_def)
  with cols h fail show ?thesis
    by (simp add: Write_csvWriter_def dataBytes_def Let_def)
qed


lemmas csv_eval = recordBytes_def recordWrites_def fieldWrites_def fieldNeedsQuotes_def
  startsWithSpace_def spaceRunes_def utf8_EncodeRune_def char_of_def bit_0 dquote_def special_def
  quotedWrites.simps configuredWriter_def csv_NewWriter_def New_def validDelim_def
  strconv_FormatInt_def strconv_FormatUint_def strconv_FormatBool_def digits.simps Rows_Scan_def
  bytes_Buffer_def headerBytes_def dataBytes_def defaultBufSize_def bufio_NewWriter_def
  SetRowPreProcessor_def

lemma toString_ignores_headers [simp]:
  "Converter_toString L (c\<lparr>Headers := h, WriteHeaders := e\<rparr>) v = Converter_toString L c v"
  by (cases v) (simp_all add: bytesToString_def)

lemma rowsWritten_ignores_headers [simp]:
  "rowsWritten L (c\<lparr>Headers := h, WriteHeaders := e\<rparr>) columnNames rs
     = rowsWritten L c columnNames rs"
proof (induction rs)
  case Nil
  show ?case by simp
next
  case (Cons r rs)
  have "Converter_toString L (c\<lparr>Headers := h, WriteHeaders := e\<rparr>) = Converter_toString L c"
    by (rule ext) simp
  with Cons show ?case
    by (simp split: sum.splits option.splits prod.splits)
qed

lemma dataBytes_ignores_headers:
  "dataBytes L (c\<lparr>Headers := h, WriteHeaders := e\<rparr>) writer columnNames
     = dataBytes L c writer columnNames"
  by (simp add: dataBytes_def configuredWriter_def)

lemma rowsWritten_all_skipped:
  assumes "rowPreProcessor c = Some processor" "\<forall>row names. \<not> fst (processor row names)"
  shows "rowsWritten L c columnNames rs = []"
proof (induction rs)
  case Nil
  show ?case by simp
next
  case (Cons r rs)
  show ?case
  proof (cases "Rows_Scan (length columnNames) r")
    case (Inl err)
    then show ?thesis by simp
  next
    case (Inr vals)
    obtain writeRow row where p:
      "processor (map (Converter_toString L c) vals) columnNames = (writeRow, row)"
      by (cases "processor (map (Converter_toString L c) vals) columnNames")
    with assms(2) have "\<not> writeRow"
      by (metis fst_conv)
    with Inr p assms(1) Cons show ?thesis by simp
  qed
qed

subsection \<open>Encoding and decoding byte slices\<close>

lemma goodEncoding_std: "goodEncoding StdEncoding" "goodEncoding RawStdEncoding"
  by (simp_all add: goodEncoding_def StdEncoding_def RawStdEncoding_def encodeStd_def)

lemma goodEncoding_url: "goodEncoding URLEncoding" "goodEncoding RawURLEncoding"
  by (simp_all add: goodEncoding_def URLEncoding_def RawURLEncoding_def encodeURL_def)

lemma index_of_nth: "distinct xs \<Longrightarrow> i < length xs \<Longrightarrow> index_of xs (xs ! i) = Some i"
proof (induction xs arbitrary: i)
  case Nil
  then show ?case by simp
next
  case (Cons x xs)
  show ?case
  proof (cases i)
    case 0
    then show ?thesis by simp
  next
    case (Suc j)
    with Cons.prems have "xs ! j \<in> set xs" "x \<notin> set xs" "j < length xs" by auto
    then have "x \<noteq> xs ! j" by auto
    with Suc Cons show ?thesis by simp
  qed
qed

lemma index_of_absent: "c \<notin> set xs \<Longrightarrow> index_of xs c = None"
  by (induction xs) auto

lemma sextets_join:
  assumes "(v::nat) < 16777216"
  shows "(v div 262144 mod 64) * 262144 + (v div 4096 mod 64) * 4096 + (v div 64 mod 64) * 64
           + v mod 64 = v"
proof -
  define q1 q2 q3 where "q1 = v div 64" and "q2 = q1 div 64" and "q3 = q2 div 64"
  have d2: "v div 4096 = q2" and d3: "v div 262144 = q3"
    by (simp_all add: q1_def q2_def q3_def div_mult2_eq)
  have "q3 < 64" using assms unfolding d3 [symmetric] by simp
  then have m3: "q3 mod 64 = q3" by simp
  have e1: "v = q1 * 64 + v mod 64" by (simp add: q1_def)
  have e2: "q1 = q2 * 64 + q1 mod 64" by (simp add: q2_def)
  have e3: "q2 = q3 * 64 + q2 mod 64" by (simp add: q3_def)
  have "q3 * 262144 + (q2 mod 64) * 4096 + (q1 mod 64) * 64 + v mod 64 = v"
    using e1 e2 e3 by linarith
  then show ?thesis
    unfolding d2 d3 m3 q1_def [symmetric] .
qed

lemma byte3_pack:
  "byte3 (of_char a * 65536 + of_char b * 256 + of_char c) = [a, b, c]"
proof -
  define x y z where "x = (of_char a :: nat)" and "y = (of_char b :: nat)" and "z = (of_char c :: nat)"
  have lt: "x < 256" "y < 256" "z < 256" by (simp_all add: x_def y_def z_def)
  have 1: "(x * 65536 + y * 256 + z) div 65536 = x" using lt by simp
  have "(x * 65536 + y * 256 + z) div 256 = x * 256 + y" using lt by simp
  then have 2: "(x * 65536 + y * 256 + z) div 256 mod 256 = y" using lt by simp
  have "x * 65536 + y * 256 + z = (x * 256 + y) * 256 + z" by simp
  then have 3: "(x * 65536 + y * 256 + z) mod 256 = z" using lt by (simp only: mod_mult_self3 mod_less)
  have "byte3 (x * 65536 + y * 256 + z) = [a, b, c]"
    unfolding byte3_def using 1 2 3 lt
    by (simp add: char_of_eq_iff take_bit_eq_mod x_def y_def z_def)
  then show ?thesis by (simp add: x_def y_def z_def)
qed


lemma quantum3:
  "byte3 (((of_char a * 65536 + of_char b * 256 + of_char c) div 262144 mod 64) * 262144
          + ((of_char a * 65536 + of_char b * 256 + of_char c) div 4096 mod 64) * 4096
          + ((of_char a * 65536 + of_char b * 256 + of_char c) div 64 mod 64) * 64
          + (of_char a * 65536 + of_char b * 256 + of_char c) mod 64) = [a, b, c]"
proof -
  define v where "v = (of_char a :: nat) * 65536 + of_char b * 256 + of_char c"
  have lt: "(of_char a :: nat) < 256" "(of_char b :: nat) < 256" "(of_char c :: nat) < 256"
    by simp_all
  then have "v < 16777216" unfolding v_def by linarith
  from sextets_join [OF this] byte3_pack [of a b c] show ?thesis
    unfolding v_def by (simp only:)
qed

lemma quantum2:
  "take 2 (byte3 (((of_char a * 65536 + of_char b * 256) div 262144 mod 64) * 262144
          + ((of_char a * 65536 + of_char b * 256) div 4096 mod 64) * 4096
          + ((of_char a * 65536 + of_char b * 256) div 64 mod 64) * 64)) = [a, b]"
proof -
  define v where "v = (of_char a :: nat) * 65536 + of_char b * 256"
  define S where "S = (v div 262144 mod 64) * 262144 + (v div 4096 mod 64) * 4096
      + (v div 64 mod 64) * 64"
  have lt: "(of_char a :: nat) < 256" "(of_char b :: nat) < 256" by simp_all
  then have "v < 16777216" unfolding v_def by linarith
  from sextets_join [OF this] have j: "S + v mod 64 = v" unfolding S_def .
  have "v = ((of_char a :: nat) * 1024 + of_char b * 4) * 64" by (simp add: v_def)
  then have "v mod 64 = 0" by (simp only: mod_mult_self2_is_0)
  with j have "S = v" by simp
  moreover have "byte3 v = [a, b, CHR 0x00]"
    using byte3_pack [of a b "CHR 0x00"] by (simp add: v_def)
  ultimately have "take 2 (byte3 S) = [a, b]" by simp
  then show ?thesis unfolding S_def v_def .
qed

lemma quantum1:
  "take 1 (byte3 (((of_char a * 65536) div 262144 mod 64) * 262144
          + ((of_char a * 65536) div 4096 mod 64) * 4096)) = [a]"
proof -
  define v where "v = (of_char a :: nat) * 65536"
  define S where "S = (v div 262144 mod 64) * 262144 + (v div 4096 mod 64) * 4096"
  have lt: "(of_char a :: nat) < 256" by simp
  then have "v < 16777216" unfolding v_def by linarith
  from sextets_join [OF this]
  have j: "S + (v div 64 mod 64) * 64 + v mod 64 = v" unfolding S_def .
  have "v = ((of_char a :: nat) * 1024) * 64" by (simp add: v_def)
  then have m: "v mod 64 = 0" by (simp only: mod_mult_self2_is_0)
  have "v div 64 = ((of_char a :: nat) * 16) * 64" by (simp add: v_def)
  then have "v div 64 mod 64 = 0" by (simp only: mod_mult_self2_is_0)
  with j m have "S = v" by simp
  moreover have "byte3 v = [a, CHR 0x00, CHR 0x00]"
    using byte3_pack [of a "CHR 0x00" "CHR 0x00"] by (simp add: v_def)
  ultimately have "take 1 (byte3 S) = [a]" by simp
  then show ?thesis unfolding S_def v_def .
qed

lemma sextet_lookup:
  assumes "goodEncoding enc"
  shows "index_of (encode enc) (encode enc ! (v mod 64)) = Some (v mod 64)"
  using assms by (intro index_of_nth) (simp_all add: goodEncoding_def)

lemma pad_lookup:
  assumes "goodEncoding enc" "padChar enc = Some p"
  shows "index_of (encode enc) p = None"
  using assms by (intro index_of_absent) (simp add: goodEncoding_def)

lemma decodeQuanta_encode:
  "goodEncoding enc \<Longrightarrow> decodeQuanta enc (base64_EncodeToString enc bs) = Inr bs"
proof (induction enc bs rule: base64_EncodeToString.induct)
  case (1 enc)
  show ?case by simp
next
  case (2 enc a)
  define s0 s1 where "s0 = ((of_char a :: nat) * 65536) div 262144 mod 64"
    and "s1 = ((of_char a :: nat) * 65536) div 4096 mod 64"
  have e: "base64_EncodeToString enc [a] = encode enc ! s0 # encode enc ! s1 # padding enc 2"
    by (simp only: base64_EncodeToString.simps Let_def s0_def s1_def append_Cons append_Nil)
  have lk: "index_of (encode enc) (encode enc ! s0) = Some s0"
    "index_of (encode enc) (encode enc ! s1) = Some s1"
    unfolding s0_def s1_def using "2.prems" by (rule sextet_lookup)+
  have q: "take 1 (byte3 (s0 * 262144 + s1 * 4096)) = [a]"
    unfolding s0_def s1_def by (rule quantum1)
  show ?case
  proof (cases "padChar enc")
    case None
    with lk q show ?thesis unfolding e by (simp add: padding_def)
  next
    case (Some p)
    with lk q pad_lookup [OF "2.prems" Some] show ?thesis
      unfolding e by (simp add: padding_def numeral_2_eq_2)
  qed
next
  case (3 enc a b)
  define s0 s1 s2 where "s0 = ((of_char a :: nat) * 65536 + of_char b * 256) div 262144 mod 64"
    and "s1 = ((of_char a :: nat) * 65536 + of_char b * 256) div 4096 mod 64"
    and "s2 = ((of_char a :: nat) * 65536 + of_char b * 256) div 64 mod 64"
  have e: "base64_EncodeToString enc [a, b]
      = encode enc ! s0 # encode enc ! s1 # encode enc ! s2 # padding enc 1"
    by (simp only: base64_EncodeToString.simps Let_def s0_def s1_def s2_def append_Cons append_Nil)
  have lk: "index_of (encode enc) (encode enc ! s0) = Some s0"
    "index_of (encode enc) (encode enc ! s1) = Some s1"
    "index_of (encode enc) (encode enc ! s2) = Some s2"
    unfolding s0_def s1_def s2_def using "3.prems" by (rule sextet_lookup)+
  have q: "take 2 (byte3 (s0 * 262144 + s1 * 4096 + s2 * 64)) = [a, b]"
    unfolding s0_def s1_def s2_def by (rule quantum2)
  show ?case
  proof (cases "padChar enc")
    case None
    with lk q show ?thesis unfolding e by (simp add: padding_def)
  next
    case (Some p)
    with lk q pad_lookup [OF "3.prems" Some] show ?thesis
      unfolding e by (simp add: padding_def)
  qed
next
  case (4 enc a b c src)
  define s0 s1 s2 s3
    where "s0 = ((of_char a :: nat) * 65536 + of_char b * 256 + of_char c) div 262144 mod 64"
    and "s1 = ((of_char a :: nat) * 65536 + of_char b * 256 + of_char c) div 4096 mod 64"
    and "s2 = ((of_char a :: nat) * 65536 + of_char b * 256 + of_char c) div 64 mod 64"
    and "s3 = ((of_char a :: nat) * 65536 + of_char b * 256 + of_char c) mod 64"
  have e: "base64_EncodeToString enc (a # b # c # src)
      = encode enc ! s0 # encode enc ! s1 # encode enc ! s2 # encode enc ! s3
        # base64_EncodeToString enc src"
    by (simp only: base64_EncodeToString.simps Let_def s0_def s1_def s2_def s3_def
        append_Cons append_Nil)
  have lk: "index_of (encode enc) (encode enc ! s0) = Some s0"
    "index_of (encode enc) (encode enc ! s1) = Some s1"
    "index_of (encode enc) (encode enc ! s2) = Some s2"
    "index_of (encode enc) (encode enc ! s3) = Some s3"
    unfolding s0_def s1_def s2_def s3_def using "4.prems" by (rule sextet_lookup)+
  have q: "byte3 (s0 * 262144 + s1 * 4096 + s2 * 64 + s3) = [a, b, c]"
    unfolding s0_def s1_def s2_def s3_def by (rule quantum3)
  from "4.IH" "4.prems" have "decodeQuanta enc (base64_EncodeToString enc src) = Inr src"
    by simp
  with lk q show ?case unfolding e by simp
qed

lemma encoded_chars:
  "goodEncoding enc \<Longrightarrow>
     set (base64_EncodeToString enc bs) \<subseteq> set (encode enc) \<union> set_option (padChar enc)"
proof (induction enc bs rule: base64_EncodeToString.induct)
  case (1 enc)
  show ?case by simp
next
  case (2 enc a)
  then have "\<And>v. encode enc ! (v mod 64) \<in> set (encode enc)"
    by (simp add: goodEncoding_def)
  then show ?case
    by (cases "padChar enc") (simp_all add: Let_def padding_def del: mod_mod_trivial)
next
  case (3 enc a b)
  then have "\<And>v. encode enc ! (v mod 64) \<in> set (encode enc)"
    by (simp add: goodEncoding_def)
  then show ?case
    by (cases "padChar enc") (simp_all add: Let_def padding_def)
next
  case (4 enc a b c src)
  then have "\<And>v. encode enc ! (v mod 64) \<in> set (encode enc)"
    by (simp add: goodEncoding_def)
  with 4 show ?case
    by (simp add: Let_def)
qed

lemma base64_round_trip:
  assumes "goodEncoding enc"
  shows "base64_DecodeString enc (base64_EncodeToString enc bs) = Inr bs"
proof -
  have "\<forall>c \<in> set (base64_EncodeToString enc bs). c \<noteq> CHR 0x0D \<and> c \<noteq> CHR 0x0A"
    using encoded_chars [OF assms, of bs] assms
    by (auto simp: goodEncoding_def split: option.splits)
  then have "filter (\<lambda>c. c \<noteq> CHR 0x0D \<and> c \<noteq> CHR 0x0A) (base64_EncodeToString enc bs)
      = base64_EncodeToString enc bs"
    by (simp add: filter_id_conv)
  then show ?thesis
    by (simp add: base64_DecodeString_def decodeQuanta_encode [OF assms])
qed


lemma fromHexChar_hextable: "i < 16 \<Longrightarrow> fromHexChar (hextable ! i) = Some i"
proof -
  have "\<forall>i \<in> set [0..<16]. fromHexChar (hextable ! i) = Some i"
    by (simp add: upt_rec [of _ "numeral _"] hextable_def fromHexChar_def)
  then show "i < 16 \<Longrightarrow> fromHexChar (hextable ! i) = Some i"
    by simp
qed

lemma hex_round_trip: "hex_DecodeString (hex_EncodeToString bs) = Inr bs"
proof (induction bs)
  case Nil
  show ?case by simp
next
  case (Cons v bs)
  define n where "n = (of_char v :: nat)"
  have "n < 256" by (simp add: n_def)
  then have d: "n div 16 < 16" and m: "n mod 16 < 16" by simp_all
  have "char_of (n div 16 * 16 + n mod 16) = v"
    by (simp add: n_def)
  with Cons fromHexChar_hextable [OF d] fromHexChar_hextable [OF m] show ?case
    by (simp add: n_def)
qed

lemma hex_length: "length (hex_EncodeToString bs) = 2 * length bs"
  by (induction bs) simp_all

lemma hex_chars: "set (hex_EncodeToString bs) \<subseteq> set hextable"
proof (induction bs)
  case Nil
  show ?case by simp
next
  case (Cons v bs)
  have l: "length hextable = 16" by (simp add: hextable_def)
  define n where "n = (of_char v :: nat)"
  have "n < 256" by (simp add: n_def)
  then have "n div 16 < 16" "n mod 16 < 16" by simp_all
  with l have "hextable ! (n div 16) \<in> set hextable" "hextable ! (n mod 16) \<in> set hextable"
    by simp_all
  with Cons show ?case by (simp add: n_def)
qed

subsection \<open>The formatter\<close>

text \<open>
  Claim C6. Whatever the configuration (byte encoding, time format, float format,
  delimiter) and whatever the library, a nil value is formatted as the empty string.
\<close>

theorem toString_nil_is_empty: "Converter_toString L c GoNil = []"
  by simp

theorem toString_nil_is_empty_witness:
  "Converter_toString exampleLib
     ((New \<lparr>Columns = Inr [], pending = [], Err = None\<rparr>)
        \<lparr>TimeFormat := ''2006'', FloatFormat := ''%f'', Delimiter := 59, ByteArrayConverter := Hex\<rparr>)
     GoNil = []"
  using toString_nil_is_empty
    [of exampleLib "(New \<lparr>Columns = Inr [], pending = [], Err = None\<rparr>)
        \<lparr>TimeFormat := ''2006'', FloatFormat := ''%f'', Delimiter := 59, ByteArrayConverter := Hex\<rparr>"]
  by simp

text \<open>
  Claim C2, as the code has it. A value that is formatted from the result \<open>s\<close> of its
  \<^verbatim>\<open>MarshalJSON\<close> method, or from the result \<open>s\<close> of \<^verbatim>\<open>json.Marshal\<close> when it has
  no successful \<^verbatim>\<open>MarshalJSON\<close> and no \<^verbatim>\<open>String\<close> method, is formatted as
  \<^verbatim>\<open>strings.Trim(s, "\"")\<close>: \<open>s\<close> without all of its leading and all of its trailing
  double quotes, not without one of each. The result neither starts nor ends with a
  double quote.
\<close>

theorem toString_trims_every_quote:
  assumes "MarshalJSON v = Some (Inr s)
     \<or> ((MarshalJSON v = None \<or> (\<exists>e. MarshalJSON v = Some (Inl e)))
         \<and> Stringer v = None \<and> json_Marshal v = Inr s)"
  shows "Converter_toString L c (GoOther v) = strings_Trim s dquote
     \<and> (\<exists>k m. s = replicate k dquote @ Converter_toString L c (GoOther v) @ replicate m dquote)
     \<and> (Converter_toString L c (GoOther v) \<noteq> [] \<longrightarrow>
          hd (Converter_toString L c (GoOther v)) \<noteq> dquote
          \<and> last (Converter_toString L c (GoOther v)) \<noteq> dquote)"
proof -
  have eq: "Converter_toString L c (GoOther v) = strings_Trim s dquote"
    using assms by (auto simp: otherToString_def)
  show ?thesis
    unfolding eq using strings_Trim_shape [of s dquote] strings_Trim_ends [of s dquote]
    by blast
qed

theorem toString_trims_every_quote_witness:
  "Converter_toString exampleLib (New \<lparr>Columns = Inr [], pending = [], Err = None\<rparr>)
     (GoOther \<lparr>MarshalJSON = Some (Inr [dquote, dquote, CHR ''a'', CHR ''b'', CHR ''c'', dquote, dquote]),
        Stringer = None, json_Marshal = Inl (ErrMarshal []), Sprintf_v = []\<rparr>)
     = strings_Trim [dquote, dquote, CHR ''a'', CHR ''b'', CHR ''c'', dquote, dquote] dquote
   \<and> strings_Trim [dquote, dquote, CHR ''a'', CHR ''b'', CHR ''c'', dquote, dquote] dquote = ''abc''"
proof -
  have t: "strings_Trim [dquote, dquote, CHR ''a'', CHR ''b'', CHR ''c'', dquote, dquote] dquote = ''abc''"
    by code_simp
  show ?thesis
    using t toString_trims_every_quote
      [of "\<lparr>MarshalJSON = Some (Inr [dquote, dquote, CHR ''a'', CHR ''b'', CHR ''c'', dquote, dquote]),
            Stringer = None, json_Marshal = Inl (ErrMarshal []), Sprintf_v = []\<rparr>"
          "[dquote, dquote, CHR ''a'', CHR ''b'', CHR ''c'', dquote, dquote]"
          exampleLib "New \<lparr>Columns = Inr [], pending = [], Err = None\<rparr>"]
    by simp
qed

text \<open>
  Claim C2, as the specification states it, fails: the marshaled text \<^verbatim>\<open>""abc""\<close> is
  not formatted as \<^verbatim>\<open>"abc"\<close> (it is formatted as \<^verbatim>\<open>abc\<close>, as the witness above shows).
\<close>

theorem toString_strips_more_than_one_quote:
  "Converter_toString exampleLib (New \<lparr>Columns = Inr [], pending = [], Err = None\<rparr>)
     (GoOther \<lparr>MarshalJSON = Some (Inr [dquote, dquote, CHR ''a'', CHR ''b'', CHR ''c'', dquote, dquote]),
        Stringer = None, json_Marshal = Inl (ErrMarshal []), Sprintf_v = []\<rparr>)
     \<noteq> [dquote, CHR ''a'', CHR ''b'', CHR ''c'', dquote]"
  by code_simp



text \<open>
  Claim C5. For every byte slice, what the formatter gives under each of the four base64
  settings decodes, with the decoder of that encoding, to the byte slice; so does what it
  gives under the hex setting, which has two characters of \<^verbatim>\<open>0123456789abcdef\<close> for
  every byte.
\<close>

theorem toString_bytes_round_trip:
  "base64_DecodeString StdEncoding
     (Converter_toString L (c\<lparr>ByteArrayConverter := StdBase64\<rparr>) (GoBytes bs)) = Inr bs
   \<and> base64_DecodeString URLEncoding
     (Converter_toString L (c\<lparr>ByteArrayConverter := URLBase64\<rparr>) (GoBytes bs)) = Inr bs
   \<and> base64_DecodeString RawStdEncoding
     (Converter_toString L (c\<lparr>ByteArrayConverter := RawStdBase64\<rparr>) (GoBytes bs)) = Inr bs
   \<and> base64_DecodeString RawURLEncoding
     (Converter_toString L (c\<lparr>ByteArrayConverter := RawURLBase64\<rparr>) (GoBytes bs)) = Inr bs
   \<and> hex_DecodeString
     (Converter_toString L (c\<lparr>ByteArrayConverter := Hex\<rparr>) (GoBytes bs)) = Inr bs
   \<and> length (Converter_toString L (c\<lparr>ByteArrayConverter := Hex\<rparr>) (GoBytes bs)) = 2 * length bs
   \<and> set (Converter_toString L (c\<lparr>ByteArrayConverter := Hex\<rparr>) (GoBytes bs))
       \<subseteq> set ''0123456789abcdef''"
  using hex_chars [of bs]
  by (simp add: bytesToString_def String_def StdBase64_def URLBase64_def RawStdBase64_def
      RawURLBase64_def Hex_def base64_round_trip goodEncoding_std goodEncoding_url
      hex_round_trip hex_length hextable_def)

theorem toString_bytes_round_trip_witness:
  "Converter_toString exampleLib
     ((New \<lparr>Columns = Inr [], pending = [], Err = None\<rparr>)\<lparr>ByteArrayConverter := Hex\<rparr>)
     (GoBytes [CHR 0xAB, CHR 0xCD]) = ''abcd''
   \<and> hex_DecodeString ''abcd'' = Inr [CHR 0xAB, CHR 0xCD]
   \<and> Converter_toString exampleLib
     ((New \<lparr>Columns = Inr [], pending = [], Err = None\<rparr>)\<lparr>ByteArrayConverter := StdBase64\<rparr>)
     (GoBytes ''hello'') = ''aGVsbG8=''
   \<and> base64_DecodeString StdEncoding ''aGVsbG8='' = Inr ''hello''"
proof -
  let ?c = "New \<lparr>Columns = Inr [], pending = [], Err = None\<rparr>"
  have h: "Converter_toString exampleLib (?c\<lparr>ByteArrayConverter := Hex\<rparr>)
      (GoBytes [CHR 0xAB, CHR 0xCD]) = ''abcd''"
    by (simp add: bytesToString_def String_def StdBase64_def URLBase64_def RawStdBase64_def
        RawURLBase64_def Hex_def hextable_def)
  have b: "Converter_toString exampleLib (?c\<lparr>ByteArrayConverter := StdBase64\<rparr>)
      (GoBytes ''hello'') = ''aGVsbG8=''"
    by (simp add: bytesToString_def String_def StdBase64_def StdEncoding_def encodeStd_def
        padding_def)
  show ?thesis
    using h b toString_bytes_round_trip [of exampleLib ?c "[CHR 0xAB, CHR 0xCD]"]
      toString_bytes_round_trip [of exampleLib ?c "''hello''"]
    by simp
qed

subsection \<open>The stream converter\<close>

text \<open>
  Claim C3. When the column names are available and the delimiter is one the CSV writer
  accepts, what a run of \<^verbatim>\<open>Write\<close> has handed to a destination that never fails is: what
  the destination held, then, if \<open>WriteHeaders\<close> is set, the one record of the headers
  (\<open>Headers\<close> when it is not empty, the column names otherwise) and nothing if it is not
  set, then the data rows. The data rows do not depend on \<open>Headers\<close> and \<open>WriteHeaders\<close>.
  When no row fails to decode, all of it is in the destination on return.
\<close>

theorem Write_header_row:
  assumes "Columns (rows c) = Inr columnNames"
    and "validDelim (Comma (configuredWriter c writer))"
    and "room writer = None"
  shows "streamOf (csv_w (snd (Write_csvWriter L c writer)))
       = accepted writer
         @ (if WriteHeaders c
            then recordBytes (configuredWriter c writer)
                   (if length (Headers c) > 0 then Headers c else columnNames)
            else [])
         @ dataBytes L c writer columnNames
     \<and> dataBytes L (c\<lparr>Headers := h, WriteHeaders := e\<rparr>) writer columnNames
         = dataBytes L c writer columnNames
     \<and> (scanFailure (length columnNames) (pending (rows c)) = None \<longrightarrow>
          accepted (snd (Converter_Write L c writer))
            = accepted writer
              @ (if WriteHeaders c
                 then recordBytes (configuredWriter c writer)
                        (if length (Headers c) > 0 then Headers c else columnNames)
                 else [])
              @ dataBytes L c writer columnNames)"
proof -
  obtain b where "Write_csvWriter L c writer
        = (case scanFailure (length columnNames) (pending (rows c)) of
             Some err \<Rightarrow> Some err | None \<Rightarrow> Err (rows c),
           (configuredWriter c writer)\<lparr>csv_w := b\<rparr>)"
    "streamOf b = accepted writer @ headerBytes c writer columnNames
                       @ dataBytes L c writer columnNames"
    using Write_csvWriter_reliable [OF assms, of L] by (elim exE conjE)
  then have "streamOf (csv_w (snd (Write_csvWriter L c writer)))
       = accepted writer @ headerBytes c writer columnNames @ dataBytes L c writer columnNames"
    by simp
  with Converter_Write_reliable(2) [OF assms, of L]
  show ?thesis
    by (simp add: headerBytes_def dataBytes_ignores_headers)
qed

theorem Write_header_row_witness:
  "accepted (snd (Converter_Write exampleLib
      ((New \<lparr>Columns = Inr [''id'', ''name''],
              pending = [Inr [GoInt64 1, GoString ''Alice''], Inr [GoInt64 2, GoString ''Bob'']],
              Err = None\<rparr>) \<lparr>Headers := [''ID'', ''Full name'']\<rparr>) bytes_Buffer))
   = ''ID,Full name\<newline>1,Alice\<newline>2,Bob\<newline>''
   \<and> accepted (snd (Converter_Write exampleLib
      (New \<lparr>Columns = Inr [''id'', ''name''],
              pending = [Inr [GoInt64 1, GoString ''Alice''], Inr [GoInt64 2, GoString ''Bob'']],
              Err = None\<rparr>) bytes_Buffer))
   = ''id,name\<newline>1,Alice\<newline>2,Bob\<newline>''
"
  using
    Write_header_row [of "(New \<lparr>Columns = Inr [''id'', ''name''],
              pending = [Inr [GoInt64 1, GoString ''Alice''], Inr [GoInt64 2, GoString ''Bob'']],
              Err = None\<rparr>) \<lparr>Headers := [''ID'', ''Full name'']\<rparr>" "[''id'', ''name'']"
        bytes_Buffer exampleLib]
    Write_header_row [of "New \<lparr>Columns = Inr [''id'', ''name''],
              pending = [Inr [GoInt64 1, GoString ''Alice''], Inr [GoInt64 2, GoString ''Bob'']],
              Err = None\<rparr>" "[''id'', ''name'']"
        bytes_Buffer exampleLib]
  by (simp add: csv_eval)

text \<open>
  Claim C7. With a row pre-processor that keeps no row, and when the column names are
  available, the delimiter is one the CSV writer accepts and the destination never fails:
  what a run of \<^verbatim>\<open>Write\<close> hands to the CSV writer is the header record alone when
  \<open>WriteHeaders\<close> is set and nothing when it is not; no row stops the loop but one that
  fails to decode, so the run returns the first decoding error of the cursor or, when
  there is none, the cursor's final error; and in that second case the destination holds
  the header record alone, or nothing.
\<close>

theorem Write_skips_every_row:
  assumes "rowPreProcessor c = Some processor"
    and "\<forall>row names. \<not> fst (processor row names)"
    and "Columns (rows c) = Inr columnNames"
    and "validDelim (Comma (configuredWriter c writer))"
    and "room writer = None"
  shows "streamOf (csv_w (snd (Write_csvWriter L c writer)))
       = accepted writer
         @ (if WriteHeaders c
            then recordBytes (configuredWriter c writer)
                   (if length (Headers c) > 0 then Headers c else columnNames)
            else [])
     \<and> fst (Converter_Write L c writer)
         = (case scanFailure (length columnNames) (pending (rows c)) of
              Some err \<Rightarrow> Some err | None \<Rightarrow> Err (rows c))
     \<and> (scanFailure (length columnNames) (pending (rows c)) = None \<longrightarrow>
          accepted (snd (Converter_Write L c writer))
            = accepted writer
              @ (if WriteHeaders c
                 then recordBytes (configuredWriter c writer)
                        (if length (Headers c) > 0 then Headers c else columnNames)
                 else []))"
proof -
  have d: "dataBytes L c writer columnNames = []"
    using rowsWritten_all_skipped [OF assms(1,2)] by (simp add: dataBytes_def)
  obtain b where w: "Write_csvWriter L c writer
        = (case scanFailure (length columnNames) (pending (rows c)) of
             Some err \<Rightarrow> Some err | None \<Rightarrow> Err (rows c),
           (configuredWriter c writer)\<lparr>csv_w := b\<rparr>)"
    and s: "streamOf b = accepted writer @ headerBytes c writer columnNames
                       @ dataBytes L c writer columnNames"
    using Write_csvWriter_reliable [OF assms(3-5), of L] by (elim exE conjE)
  have 1: "streamOf (csv_w (snd (Write_csvWriter L c writer)))
       = accepted writer @ headerBytes c writer columnNames"
    using w s d by simp
  have 2: "fst (Converter_Write L c writer)
         = (case scanFailure (length columnNames) (pending (rows c)) of
              Some err \<Rightarrow> Some err | None \<Rightarrow> Err (rows c))"
    using w by (simp add: Converter_Write_def)
  show ?thesis
    using 1 2 d Converter_Write_reliable(2) [OF assms(3-5), of L]
    by (simp add: headerBytes_def)
qed

theorem Write_skips_every_row_witness:
  "fst (Converter_Write exampleLib
      (SetRowPreProcessor
         (New \<lparr>Columns = Inr [''id''], pending = [Inr [GoInt64 1], Inr [GoInt64 2]],
               Err = None\<rparr>)
         (\<lambda>row names. (False, row))) bytes_Buffer) = None
   \<and> accepted (snd (Converter_Write exampleLib
      (SetRowPreProcessor
         (New \<lparr>Columns = Inr [''id''], pending = [Inr [GoInt64 1], Inr [GoInt64 2]],
               Err = None\<rparr>)
         (\<lambda>row names. (False, row))) bytes_Buffer)) = ''id\<newline>''"
  using Write_skips_every_row
    [of "SetRowPreProcessor
         (New \<lparr>Columns = Inr [''id''], pending = [Inr [GoInt64 1], Inr [GoInt64 2]],
               Err = None\<rparr>)
         (\<lambda>row names. (False, row))"
      "\<lambda>row names. (False, row)" "[''id'']" bytes_Buffer exampleLib]
  by (simp add: csv_eval)

text \<open>
  Claim C1 fails on the code: \<^verbatim>\<open>Write\<close> flushes the CSV writer only after the row loop
  has run to its end. When the second row fails to decode, \<^verbatim>\<open>Write\<close> returns the decoding
  error from inside the loop, and the header and the first row, which the CSV writer has
  taken, are still in its buffer: the destination has received nothing.
\<close>

theorem Write_decode_failure_leaves_output_empty:
  "Write exampleLib bytes_Buffer
     \<lparr>Columns = Inr [''id''], pending = [Inr [GoInt64 1], Inl (ErrDriver ''decode'')], Err = None\<rparr>
     = (Some (ErrDriver ''decode''), bytes_Buffer)
   \<and> buf (csv_w (snd (Write_csvWriter exampleLib
        (New \<lparr>Columns = Inr [''id''], pending = [Inr [GoInt64 1], Inl (ErrDriver ''decode'')],
               Err = None\<rparr>) bytes_Buffer))) = ''id\<newline>1\<newline>''"
proof -
  let ?c = "New \<lparr>Columns = Inr [''id''],
      pending = [Inr [GoInt64 1], Inl (ErrDriver ''decode'')], Err = None\<rparr>"
  have w: "Write_csvWriter exampleLib ?c bytes_Buffer
      = (Some (ErrDriver ''decode''),
         (configuredWriter ?c bytes_Buffer)
           \<lparr>csv_w := (bufio_NewWriter bytes_Buffer)
              \<lparr>buf := headerBytes ?c bytes_Buffer [''id'']
                       @ dataBytes exampleLib ?c bytes_Buffer [''id'']\<rparr>\<rparr>)"
    by (rule Write_csvWriter_fits) (simp_all add: csv_eval)
  have h: "headerBytes ?c bytes_Buffer [''id''] @ dataBytes exampleLib ?c bytes_Buffer [''id'']
      = ''id\<newline>1\<newline>''"
    by (simp add: csv_eval)
  show ?thesis
    unfolding Write_def Converter_Write_def w h by simp
qed

text \<open>
  When no row fails to decode, \<^verbatim>\<open>Write\<close> flushes the CSV writer before it returns, also
  when it returns the final error of the cursor: with column names available, a delimiter
  the CSV writer accepts and a destination that never fails, the run returns what
  \<^verbatim>\<open>rows.Err()\<close> returns, and the destination then holds the header record, if
  \<open>WriteHeaders\<close> is set, and every row kept.
\<close>

theorem Write_flushes_after_loop:
  assumes "Columns (rows c) = Inr columnNames"
    and "validDelim (Comma (configuredWriter c writer))"
    and "room writer = None"
    and "scanFailure (length columnNames) (pending (rows c)) = None"
  shows "fst (Converter_Write L c writer) = Err (rows c)
     \<and> accepted (snd (Converter_Write L c writer))
         = accepted writer @ headerBytes c writer columnNames @ dataBytes L c writer columnNames"
  using Converter_Write_reliable [OF assms, of L] by simp

theorem Write_flushes_after_loop_witness:
  "fst (Converter_Write exampleLib
     (New \<lparr>Columns = Inr [''id''], pending = [Inr [GoInt64 1]], Err = Some (ErrDriver ''lost'')\<rparr>)
     bytes_Buffer) = Some (ErrDriver ''lost'')
   \<and> accepted (snd (Converter_Write exampleLib
     (New \<lparr>Columns = Inr [''id''], pending = [Inr [GoInt64 1]], Err = Some (ErrDriver ''lost'')\<rparr>)
     bytes_Buffer)) = ''id\<newline>1\<newline>''"
  using Write_flushes_after_loop
    [of "New \<lparr>Columns = Inr [''id''], pending = [Inr [GoInt64 1]], Err = Some (ErrDriver ''lost'')\<rparr>"
      "[''id'']" bytes_Buffer exampleLib]
  by (simp add: csv_eval)

text \<open>
  Claim C10. When the conversion returns an error, \<^verbatim>\<open>String\<close> returns the empty string,
  whatever \<^verbatim>\<open>WriteString\<close> has produced before the failure.
\<close>

theorem String_swallows_error:
  assumes "snd (Converter_WriteString L c) = Some err"
  shows "Converter_String L c = []"
  using assms by (cases "Converter_WriteString L c") (simp add: Converter_String_def)

theorem String_swallows_error_witness:
  "Converter_WriteString exampleLib
     (New \<lparr>Columns = Inr [''id''], pending = [Inr [GoInt64 1]], Err = Some (ErrDriver ''lost'')\<rparr>)
     = (''id\<newline>1\<newline>'', Some (ErrDriver ''lost''))
   \<and> Converter_String exampleLib
     (New \<lparr>Columns = Inr [''id''], pending = [Inr [GoInt64 1]], Err = Some (ErrDriver ''lost'')\<rparr>) = []"
proof -
  let ?c = "New \<lparr>Columns = Inr [''id''], pending = [Inr [GoInt64 1]],
      Err = Some (ErrDriver ''lost'')\<rparr>"
  have 1: "fst (Converter_Write exampleLib ?c bytes_Buffer) = Some (ErrDriver ''lost'')"
    using Converter_Write_reliable(1) [of ?c "[''id'']" bytes_Buffer exampleLib]
    by (simp add: csv_eval)
  have 2: "accepted (snd (Converter_Write exampleLib ?c bytes_Buffer)) = ''id\<newline>1\<newline>''"
    using Converter_Write_reliable(2) [of ?c "[''id'']" bytes_Buffer exampleLib]
    by (simp add: csv_eval)
  have e: "Converter_WriteString exampleLib ?c = (''id\<newline>1\<newline>'', Some (ErrDriver ''lost''))"
    using 1 2 by (cases "Converter_Write exampleLib ?c bytes_Buffer")
      (simp add: Converter_WriteString_def)
  show ?thesis
    using e String_swallows_error [of exampleLib ?c "ErrDriver ''lost''"] by simp
qed

text \<open>
  Claim C9. When \<^verbatim>\<open>os.Create\<close> has given a file, \<^verbatim>\<open>WriteFile\<close> leaves that file closed,
  with what \<^verbatim>\<open>Write\<close> has put into it; it returns the error of \<^verbatim>\<open>Write\<close> when there is
  one, and otherwise what \<^verbatim>\<open>Close\<close> returns.
\<close>

theorem WriteFile_closes_file:
  assumes "os_Create fs csvFileName = Inr f"
  shows "\<not> closed f
     \<and> (\<exists>f'. snd (Converter_WriteFile L c fs csvFileName) = Some f' \<and> closed f'
            \<and> fileWriter f' = snd (Converter_Write L c (fileWriter f)))
     \<and> fst (Converter_WriteFile L c fs csvFileName)
         = (case fst (Converter_Write L c (fileWriter f)) of
              Some err \<Rightarrow> Some err
            | None \<Rightarrow> closeError fs)"
proof -
  from assms have f: "closed f = False" "onClose f = closeError fs"
    by (auto simp: os_Create_def split: option.splits)
  obtain e dst where w: "Converter_Write L c (fileWriter f) = (e, dst)"
    by (cases "Converter_Write L c (fileWriter f)")
  show ?thesis
    using assms f w by (cases e) (simp_all add: Converter_WriteFile_def File_Close_def)
qed

theorem WriteFile_closes_file_witness:
  "fst (Converter_WriteFile exampleLib
     (New \<lparr>Columns = Inr [''id''], pending = [Inr [GoInt64 1], Inl (ErrDriver ''decode'')],
           Err = None\<rparr>)
     \<lparr>createError = (\<lambda>n. None), capacity = None, closeError = Some (ErrIO ''close'')\<rparr> ''out.csv'')
     = Some (ErrDriver ''decode'')
   \<and> fst (Converter_WriteFile exampleLib
     (New \<lparr>Columns = Inr [''id''], pending = [Inr [GoInt64 1]], Err = None\<rparr>)
     \<lparr>createError = (\<lambda>n. None), capacity = None, closeError = Some (ErrIO ''close'')\<rparr> ''out.csv'')
     = Some (ErrIO ''close'')"
proof -
  let ?fs = "\<lparr>createError = (\<lambda>n. None), capacity = None, closeError = Some (ErrIO ''close'')\<rparr>"
  let ?f = "\<lparr>fname = ''out.csv'',
            fileWriter = \<lparr>accepted = [], room = None, failure = ErrIO ''write failed'',
                          stringWriter = True\<rparr>,
            closed = False, onClose = Some (ErrIO ''close'')\<rparr>"
  let ?c1 = "New \<lparr>Columns = Inr [''id''],
      pending = [Inr [GoInt64 1], Inl (ErrDriver ''decode'')], Err = None\<rparr>"
  let ?c2 = "New \<lparr>Columns = Inr [''id''], pending = [Inr [GoInt64 1]], Err = None\<rparr>"
  have c: "os_Create ?fs ''out.csv'' = Inr ?f"
    by (simp add: os_Create_def)
  have "Write_csvWriter exampleLib ?c1 (fileWriter ?f)
      = (Some (ErrDriver ''decode''),
         (configuredWriter ?c1 (fileWriter ?f))
           \<lparr>csv_w := (bufio_NewWriter (fileWriter ?f))
              \<lparr>buf := headerBytes ?c1 (fileWriter ?f) [''id'']
                       @ dataBytes exampleLib ?c1 (fileWriter ?f) [''id'']\<rparr>\<rparr>)"
    by (rule Write_csvWriter_fits) (simp_all add: csv_eval)
  then have 1: "fst (Converter_Write exampleLib ?c1 (fileWriter ?f)) = Some (ErrDriver ''decode'')"
    by (simp add: Converter_Write_def)
  have 2: "fst (Converter_Write exampleLib ?c2 (fileWriter ?f)) = None"
    using Converter_Write_reliable(1) [of ?c2 "[''id'']" "fileWriter ?f" exampleLib]
    by (simp add: csv_eval)
  show ?thesis
    using 1 2 WriteFile_closes_file [OF c, of exampleLib ?c1]
      WriteFile_closes_file [OF c, of exampleLib ?c2]
    by simp
qed

end
